theory Spec2Isabelle
  imports Complex_Main "HOL-Library.Word"
begin

unbundle bit_operations_syntax

section \<open>Blackhole PCIe reset: the model\<close>

text \<open>
  A shallow embedding of \<^verbatim>\<open>BHChipReset\<close> in
  \<^verbatim>\<open>tt_tools_common/reset_common/bh_reset.py\<close>. Python integers are \<open>int\<close>,
  byte strings are lists of 8-bit words, exceptions are values of the type \<open>error\<close>
  (\<open>Inl\<close> of a sum), and every call that leaves the process (device node, ioctl, sysfs
  file, clock, \<^verbatim>\<open>PciChip\<close>) is answered by a field of an environment record and
  logged as an \<open>event\<close>, in program order.
\<close>

subsection \<open>Errors, bytes and the \<^verbatim>\<open>struct\<close> module\<close>

type_synonym byte = "8 word"

datatype error =
    OSError            \<comment> \<open>\<^verbatim>\<open>os.open\<close>, \<^verbatim>\<open>fcntl.ioctl\<close>, \<^verbatim>\<open>open\<close>, \<^verbatim>\<open>os.pread\<close>\<close>
  | StructError        \<comment> \<open>\<^verbatim>\<open>struct.error\<close>\<close>
  | ValueError         \<comment> \<open>tuple unpacking of the wrong number of values\<close>
  | KeyError           \<comment> \<open>a dictionary lookup of a missing key\<close>
  | ChipError          \<comment> \<open>whatever \<^verbatim>\<open>PciChip\<close> raises\<close>
  | SystemExit int     \<comment> \<open>\<^verbatim>\<open>sys.exit(n)\<close>\<close>

text \<open>\<^verbatim>\<open>int.from_bytes(bs, byteorder='little')\<close>, for a byte string of any length.\<close>

definition int_from_bytes_little :: "byte list \<Rightarrow> int" where
  "int_from_bytes_little bs = foldr (\<lambda>b acc. uint b + 256 * acc) bs 0"

text \<open>The \<open>n\<close> low bytes of \<open>v\<close>, least significant first.\<close>

definition int_to_bytes_little :: "nat \<Rightarrow> int \<Rightarrow> byte list" where
  "int_to_bytes_little n v = map (\<lambda>k. word_of_int (drop_bit (8 * k) v)) [0..<n]"

text \<open>
  The \<^verbatim>\<open>struct\<close> module for the formats the program uses: strings of \<^verbatim>\<open>I\<close>
  (unsigned 32-bit, four bytes, no padding between them) in native byte order, which is
  little-endian on the hosts the reset supports. \<^verbatim>\<open>struct.pack\<close> raises
  \<^verbatim>\<open>struct.error\<close> for a value outside \<open>0 .. 2^32 - 1\<close> and for a wrong number of
  values, \<^verbatim>\<open>struct.unpack\<close> for a buffer whose size is not \<^verbatim>\<open>calcsize\<close>.
\<close>

fun calcsize :: "string \<Rightarrow> nat" where
  "calcsize [] = 0"
| "calcsize (c # fmt) = 4 + calcsize fmt"

fun struct_pack :: "string \<Rightarrow> int list \<Rightarrow> error + byte list" where
  "struct_pack [] [] = Inr []"
| "struct_pack (c # fmt) (v # vs) =
     (if c = CHR ''I'' \<and> 0 \<le> v \<and> v < 2 ^ 32
      then (case struct_pack fmt vs of
              Inl e \<Rightarrow> Inl e
            | Inr bs \<Rightarrow> Inr (int_to_bytes_little 4 v @ bs))
      else Inl StructError)"
| "struct_pack _ _ = Inl StructError"

fun unpack_fields :: "string \<Rightarrow> byte list \<Rightarrow> int list" where
  "unpack_fields [] buf = []"
| "unpack_fields (c # fmt) buf =
     int_from_bytes_little (take 4 buf) # unpack_fields fmt (drop 4 buf)"

definition struct_unpack :: "string \<Rightarrow> byte list \<Rightarrow> error + int list" where
  "struct_unpack fmt buf =
     (if length buf = calcsize fmt \<and> list_all (\<lambda>c. c = CHR ''I'') fmt
      then Inr (unpack_fields fmt buf)
      else Inl StructError)"

subsection \<open>Events and the environment\<close>

datatype message =
    ArmUnsupported           \<comment> \<open>"Cannot perform WH board reset on Arm systems ..."\<close>
  | Starting "int list"      \<comment> \<open>"Starting PCI link reset on BH devices at PCI indices: ..."\<close>
  | ResetCompleted int       \<comment> \<open>"Config space reset completed for device i"\<close>
  | ResetNotCompleted int    \<comment> \<open>"Config space reset not completed for device i!"\<close>
  | Finishing "int list"     \<comment> \<open>"Finishing PCI link reset on BH devices at PCI indices: ..."\<close>

datatype event =
    OsOpen int                   \<comment> \<open>\<^verbatim>\<open>os.open("/dev/tenstorrent/<i>", O_RDWR | O_CLOEXEC)\<close>\<close>
  | Ioctl int int "byte list"    \<comment> \<open>\<^verbatim>\<open>fcntl.ioctl\<close> on the node of interface \<open>i\<close>: request code, buffer passed\<close>
  | OsClose int                  \<comment> \<open>\<^verbatim>\<open>os.close\<close> of the node of interface \<open>i\<close>\<close>
  | GetPciBdf int                \<comment> \<open>\<^verbatim>\<open>PciChip(pci_interface=i).get_pci_bdf()\<close>\<close>
  | OpenConfig string            \<comment> \<open>\<^verbatim>\<open>open("/sys/bus/pci/devices/<bdf>/config", "rb")\<close>\<close>
  | Pread string nat nat         \<comment> \<open>\<^verbatim>\<open>os.pread\<close> on the config file of \<open>bdf\<close>: byte count, offset\<close>
  | Sleep                        \<comment> \<open>\<^verbatim>\<open>time.sleep(0.001)\<close>\<close>
  | Print message
  | NewPciChip int               \<comment> \<open>\<^verbatim>\<open>PciChip(pci_interface=i)\<close> of the returned list\<close>

text \<open>
  The environment answers every external call. A file descriptor is identified with the
  interface whose node it was opened on, a config file object with the BDF in its path.
  The answers that change while the program runs are indexed by when they are asked:
  \<open>pread env r bdf\<close> is what the read of poll round \<open>r\<close> (from 0) returns,
  \<open>clock env k\<close> is the \<open>k\<close>-th reading of \<^verbatim>\<open>time.time()\<close> (reading 0 is
  \<^verbatim>\<open>start_time\<close>), in seconds. Readings are floats; the only arithmetic on them is
  the subtraction \<^verbatim>\<open>time.time() - start_time\<close> of two nearby readings, which is
  exact, so they are modelled as reals. The iteration order of a Python set is not
  specified: \<open>set_rank\<close> ranks the ids, and the set is iterated by increasing rank.
  \<^verbatim>\<open>os.close\<close> is taken not to fail.
\<close>

record 'chip env =
  platform :: string                                          \<comment> \<open>\<^verbatim>\<open>get_host_info()["Platform"]\<close>\<close>
  set_rank :: "int \<Rightarrow> int"
  os_open :: "int \<Rightarrow> error + unit"
  ioctl :: "int \<Rightarrow> int \<Rightarrow> byte list \<Rightarrow> error + byte list"  \<comment> \<open>the buffer after the call\<close>
  get_pci_bdf :: "int \<Rightarrow> error + string"
  open_config :: "string \<Rightarrow> error + unit"
  pread :: "nat \<Rightarrow> string \<Rightarrow> error + byte list"
  clock :: "nat \<Rightarrow> real"
  pci_chip :: "int \<Rightarrow> error + 'chip"

text \<open>A computation: the events it caused, and the exception it raised or its value.\<close>

type_synonym 'a io = "event list \<times> (error + 'a)"

subsection \<open>Constants of \<^verbatim>\<open>BHChipReset\<close>\<close>

definition TENSTORRENT_IOCTL_MAGIC :: int where
  "TENSTORRENT_IOCTL_MAGIC = 0xFA"

definition TENSTORRENT_IOCTL_RESET_DEVICE :: int where
  "TENSTORRENT_IOCTL_RESET_DEVICE = push_bit 8 TENSTORRENT_IOCTL_MAGIC OR 6"

definition TENSTORRENT_RESET_DEVICE_RESTORE_STATE :: int where
  "TENSTORRENT_RESET_DEVICE_RESTORE_STATE = 0"

definition TENSTORRENT_RESET_DEVICE_RESET_PCIE_LINK :: int where
  "TENSTORRENT_RESET_DEVICE_RESET_PCIE_LINK = 1"

definition TENSTORRENT_RESET_DEVICE_CONFIG_WRITE :: int where
  "TENSTORRENT_RESET_DEVICE_CONFIG_WRITE = 2"

definition POST_RESET_MSG_WAIT_TIME :: real where
  "POST_RESET_MSG_WAIT_TIME = 2"

subsection \<open>\<^verbatim>\<open>reset_device_ioctl\<close>\<close>

text \<open>
  The body of the \<^verbatim>\<open>try\<close> block, once the node is open: the events and the outcome.
  \<^verbatim>\<open>output_buf\<close> is the buffer from \<^verbatim>\<open>input_size_bytes\<close> on, and
  \<^verbatim>\<open>_, result = struct.unpack("II", output_buf)\<close> takes the second of its two fields.
\<close>

definition reset_device_body :: "'chip env \<Rightarrow> int \<Rightarrow> int \<Rightarrow> bool io" where
  "reset_device_body env interface_id flags =
     (let reset_device_in_struct = ''II'';
          reset_device_out_struct = ''II'';
          reset_device_struct = reset_device_in_struct @ reset_device_out_struct;
          input_size_bytes = calcsize reset_device_in_struct;
          output_size_bytes = calcsize reset_device_out_struct
      in case struct_pack reset_device_struct [int output_size_bytes, flags, 0, 0] of
           Inl e \<Rightarrow> ([], Inl e)
         | Inr reset_device_buf \<Rightarrow>
             (case ioctl env interface_id TENSTORRENT_IOCTL_RESET_DEVICE reset_device_buf of
                Inl e \<Rightarrow>
                  ([Ioctl interface_id TENSTORRENT_IOCTL_RESET_DEVICE reset_device_buf], Inl e)
              | Inr buf_after \<Rightarrow>
                  ([Ioctl interface_id TENSTORRENT_IOCTL_RESET_DEVICE reset_device_buf],
                   (case struct_unpack reset_device_out_struct (drop input_size_bytes buf_after) of
                      Inl e \<Rightarrow> Inl e
                    | Inr [_, result] \<Rightarrow> Inr (result = 0)
                    | Inr _ \<Rightarrow> Inl ValueError))))"

text \<open>
  \<^verbatim>\<open>os.open\<close> is outside the \<^verbatim>\<open>try\<close>: when it raises nothing is closed. Once it
  has returned, the \<^verbatim>\<open>finally\<close> clause closes the node on every path.
\<close>

definition reset_device_ioctl :: "'chip env \<Rightarrow> int \<Rightarrow> int \<Rightarrow> bool io" where
  "reset_device_ioctl env interface_id flags =
     (case os_open env interface_id of
        Inl e \<Rightarrow> ([OsOpen interface_id], Inl e)
      | Inr _ \<Rightarrow>
          (case reset_device_body env interface_id flags of
             (t, r) \<Rightarrow> (OsOpen interface_id # t @ [OsClose interface_id], r)))"

text \<open>
  A simulated kernel for \<^verbatim>\<open>reset_device_ioctl\<close>: every node opens, and the ioctl
  leaves \<open>response\<close> in the buffer.
\<close>

definition simulated_kernel :: "byte list \<Rightarrow> unit env" where
  "simulated_kernel response =
     \<lparr> platform = ''x86_64'', set_rank = (\<lambda>i. i), os_open = (\<lambda>_. Inr ()),
       ioctl = (\<lambda>_ _ _. Inr response), get_pci_bdf = (\<lambda>_. Inl ChipError),
       open_config = (\<lambda>_. Inl OSError), pread = (\<lambda>_ _. Inl OSError),
       clock = (\<lambda>k. real k), pci_chip = (\<lambda>_. Inl ChipError) \<rparr>"

subsection \<open>\<^verbatim>\<open>full_lds_reset\<close>\<close>

text \<open>\<^verbatim>\<open>str.startswith\<close>.\<close>

definition startswith :: "string \<Rightarrow> string \<Rightarrow> bool" where
  "startswith s p = (take (length p) s = p)"

text \<open>
  \<^verbatim>\<open>list(set(pci_interfaces))\<close>: each id once, in the order of the environment's
  ranking (ids of equal rank in the order of their last occurrences in the argument).
\<close>

definition list_of_set :: "'chip env \<Rightarrow> int list \<Rightarrow> int list" where
  "list_of_set env xs = sort_key (set_rank env) (remdups xs)"

text \<open>\<^verbatim>\<open>d[k] = v\<close> on a dictionary kept in insertion order.\<close>

fun dict_set :: "'k \<Rightarrow> 'v \<Rightarrow> ('k \<times> 'v) list \<Rightarrow> ('k \<times> 'v) list" where
  "dict_set k v [] = [(k, v)]"
| "dict_set k v ((k', v') # kvs) =
     (if k = k' then (k, v) # kvs else (k', v') # dict_set k v kvs)"

text \<open>
  Lines 92 to 98, the first loop over the devices: the BDF of a device is looked up and
  stored, and the device gets its \<^verbatim>\<open>CONFIG_WRITE\<close> command, before the loop moves to
  the next device. The boolean that \<^verbatim>\<open>reset_device_ioctl\<close> returns is dropped.
\<close>

fun trigger_resets :: "'chip env \<Rightarrow> int list \<Rightarrow> (int \<rightharpoonup> string) \<Rightarrow> (int \<rightharpoonup> string) io" where
  "trigger_resets env [] pci_bdf_list = ([], Inr pci_bdf_list)"
| "trigger_resets env (pci_interface # rest) pci_bdf_list =
     (case get_pci_bdf env pci_interface of
        Inl e \<Rightarrow> ([GetPciBdf pci_interface], Inl e)
      | Inr pci_bdf \<Rightarrow>
          (case reset_device_ioctl env pci_interface TENSTORRENT_RESET_DEVICE_CONFIG_WRITE of
             (t, Inl e) \<Rightarrow> (GetPciBdf pci_interface # t, Inl e)
           | (t, Inr _) \<Rightarrow>
               (case trigger_resets env rest (pci_bdf_list(pci_interface \<mapsto> pci_bdf)) of
                  (t', r) \<Rightarrow> (GetPciBdf pci_interface # t @ t', r))))"

text \<open>Line 105, the dictionary comprehension that opens the config files.\<close>

fun open_files ::
  "'chip env \<Rightarrow> (int \<rightharpoonup> string) \<Rightarrow> int list \<Rightarrow> (int \<times> string) list \<Rightarrow> (int \<times> string) list io"
where
  "open_files env pci_bdf_list [] files_map = ([], Inr files_map)"
| "open_files env pci_bdf_list (pci_interface # rest) files_map =
     (case pci_bdf_list pci_interface of
        None \<Rightarrow> ([], Inl KeyError)
      | Some bdf \<Rightarrow>
          (case open_config env bdf of
             Inl e \<Rightarrow> ([OpenConfig bdf], Inl e)
           | Inr _ \<Rightarrow>
               (case open_files env pci_bdf_list rest (dict_set pci_interface bdf files_map) of
                  (t, r) \<Rightarrow> (OpenConfig bdf # t, r))))"

text \<open>Line 114: bit 1 of the bytes read.\<close>

definition reset_bit_of :: "byte list \<Rightarrow> int" where
  "reset_bit_of command_memory_byte =
     drop_bit 1 (int_from_bytes_little command_memory_byte) AND 1"

text \<open>Lines 112 to 116, one round of reads over \<^verbatim>\<open>files_map.items()\<close>, in round \<open>r\<close>.\<close>

fun poll_round ::
  "'chip env \<Rightarrow> nat \<Rightarrow> (int \<times> string) list \<Rightarrow> (int \<rightharpoonup> int) \<Rightarrow> (int \<rightharpoonup> int) io"
where
  "poll_round env r [] reset_bit_map = ([], Inr reset_bit_map)"
| "poll_round env r ((pci_interface, file) # rest) reset_bit_map =
     (case pread env r file of
        Inl e \<Rightarrow> ([Pread file 1 4], Inl e)
      | Inr command_memory_byte \<Rightarrow>
          (case poll_round env r rest
                  (reset_bit_map(pci_interface \<mapsto> reset_bit_of command_memory_byte)) of
             (t, res) \<Rightarrow> (Pread file 1 4 # t, res)))"

text \<open>
  The variables of the \<^verbatim>\<open>while\<close> loop of lines 111 to 120, with the number of rounds
  of reads done so far and the events so far. How the loop was left is part of its
  outcome: by its condition, by \<^verbatim>\<open>break\<close>, or by an exception.
\<close>

record poll_state =
  rounds :: nat
  elapsed :: real
  reset_bit_map :: "int \<rightharpoonup> int"
  poll_events :: "event list"

datatype loop_exit = Timeout | EarlyExit

text \<open>
  The loop may run forever (a clock that stands still): \<open>None\<close> is "does not return".
\<close>

partial_function (option) poll_loop ::
  "'chip env \<Rightarrow> int \<Rightarrow> (int \<times> string) list \<Rightarrow> poll_state \<Rightarrow> (poll_state \<times> (error + loop_exit)) option"
where
  "poll_loop env completed files_map s =
     (if elapsed s < POST_RESET_MSG_WAIT_TIME then
        (case poll_round env (rounds s) files_map (reset_bit_map s) of
           (t, Inl e) \<Rightarrow>
             Some (s\<lparr>poll_events := poll_events s @ t\<rparr>, Inl e)
         | (t, Inr bits) \<Rightarrow>
             if completed = int (length files_map)
             then Some (s\<lparr>rounds := Suc (rounds s), reset_bit_map := bits,
                          poll_events := poll_events s @ t\<rparr>, Inr EarlyExit)
             else poll_loop env completed files_map
                    \<lparr>rounds = Suc (rounds s),
                     elapsed = clock env (Suc (rounds s)) - clock env 0,
                     reset_bit_map = bits,
                     poll_events = poll_events s @ t @ [Sleep]\<rparr>)
      else Some (s, Inr Timeout))"

declare poll_loop.simps [code]

text \<open>
  Lines 104 to 120: \<^verbatim>\<open>completed = 0\<close>, the files, \<^verbatim>\<open>elapsed = 0\<close>,
  \<^verbatim>\<open>start_time\<close>, a bit map of ones, and the loop.
\<close>

definition poll_stage ::
  "'chip env \<Rightarrow> int list \<Rightarrow> (int \<rightharpoonup> string) \<Rightarrow> (poll_state \<times> (error + loop_exit)) option"
where
  "poll_stage env pci_interfaces pci_bdf_list =
     (let completed = 0 in
      case open_files env pci_bdf_list pci_interfaces [] of
        (t, Inl e) \<Rightarrow>
          Some (\<lparr>rounds = 0, elapsed = 0, reset_bit_map = Map.empty, poll_events = t\<rparr>, Inl e)
      | (t, Inr files_map) \<Rightarrow>
          poll_loop env completed files_map
            \<lparr>rounds = 0, elapsed = 0,
             reset_bit_map = fold (\<lambda>pci_interface m. m(pci_interface \<mapsto> 1)) pci_interfaces Map.empty,
             poll_events = t\<rparr>)"

text \<open>Lines 123 to 128: one message per device, from the bit map as the loop left it.\<close>

fun classify :: "int list \<Rightarrow> (int \<rightharpoonup> int) \<Rightarrow> int \<Rightarrow> int io" where
  "classify [] bits completed = ([], Inr completed)"
| "classify (pci_interface # rest) bits completed =
     (case bits pci_interface of
        None \<Rightarrow> ([], Inl KeyError)
      | Some b \<Rightarrow>
          if b = 0
          then (case classify rest bits (completed + 1) of
                  (t, r) \<Rightarrow> (Print (ResetCompleted pci_interface) # t, r))
          else (case classify rest bits completed of
                  (t, r) \<Rightarrow> (Print (ResetNotCompleted pci_interface) # t, r)))"

text \<open>Lines 130 to 133: \<^verbatim>\<open>RESTORE_STATE\<close> for each device, its boolean dropped.\<close>

fun restore_all :: "'chip env \<Rightarrow> int list \<Rightarrow> unit io" where
  "restore_all env [] = ([], Inr ())"
| "restore_all env (pci_interface # rest) =
     (case reset_device_ioctl env pci_interface TENSTORRENT_RESET_DEVICE_RESTORE_STATE of
        (t, Inl e) \<Rightarrow> (t, Inl e)
      | (t, Inr _) \<Rightarrow> (case restore_all env rest of (t', r) \<Rightarrow> (t @ t', r)))"

text \<open>Line 141: the list of fresh handles.\<close>

fun pci_chips :: "'chip env \<Rightarrow> int list \<Rightarrow> 'chip list io" where
  "pci_chips env [] = ([], Inr [])"
| "pci_chips env (interface # rest) =
     (case pci_chip env interface of
        Inl e \<Rightarrow> ([NewPciChip interface], Inl e)
      | Inr c \<Rightarrow>
          (case pci_chips env rest of
             (t, Inl e) \<Rightarrow> (NewPciChip interface # t, Inl e)
           | (t, Inr cs) \<Rightarrow> (NewPciChip interface # t, Inr (c # cs))))"

text \<open>Sequencing: the events of both parts, in order; an exception ends the sequence.\<close>

definition bind_io :: "'a io \<Rightarrow> ('a \<Rightarrow> 'b io) \<Rightarrow> 'b io" where
  "bind_io m f =
     (case m of
        (t, Inl e) \<Rightarrow> (t, Inl e)
      | (t, Inr a) \<Rightarrow> (case f a of (t', r) \<Rightarrow> (t @ t', r)))"

text \<open>Lines 122 to 142, what follows the loop.\<close>

definition report_and_restore ::
  "'chip env \<Rightarrow> bool \<Rightarrow> int list \<Rightarrow> (int \<rightharpoonup> int) \<Rightarrow> 'chip list io"
where
  "report_and_restore env silent pci_interfaces bits =
     bind_io (classify pci_interfaces bits 0) (\<lambda>completed.
     bind_io (restore_all env pci_interfaces) (\<lambda>_.
     bind_io (if \<not> silent then ([Print (Finishing pci_interfaces)], Inr ()) else ([], Inr ()))
       (\<lambda>_. pci_chips env pci_interfaces)))"

text \<open>
  The whole function. \<^verbatim>\<open>reset_m3\<close> is a parameter the body never reads.
  \<^verbatim>\<open>sys.exit(1)\<close> raises \<^verbatim>\<open>SystemExit\<close>.
\<close>

definition full_lds_reset ::
  "'chip env \<Rightarrow> int list \<Rightarrow> bool \<Rightarrow> bool \<Rightarrow> 'chip list io option"
where
  "full_lds_reset env pci_interfaces_arg reset_m3 silent =
     (if startswith (platform env) ''arm'' \<or> startswith (platform env) ''aarch''
      then Some ([Print ArmUnsupported], Inl (SystemExit 1))
      else
        let pci_interfaces = list_of_set env pci_interfaces_arg;
            t0 = (if \<not> silent then [Print (Starting pci_interfaces)] else [])
        in case trigger_resets env pci_interfaces Map.empty of
             (t1, Inl e) \<Rightarrow> Some (t0 @ t1, Inl e)
           | (t1, Inr pci_bdf_list) \<Rightarrow>
               (case poll_stage env pci_interfaces pci_bdf_list of
                  None \<Rightarrow> None
                | Some (s, Inl e) \<Rightarrow> Some (t0 @ t1 @ poll_events s, Inl e)
                | Some (s, Inr _) \<Rightarrow>
                    (case report_and_restore env silent pci_interfaces (reset_bit_map s) of
                       (t3, r) \<Rightarrow> Some (t0 @ t1 @ poll_events s @ t3, r))))"

subsection \<open>Vocabulary for the statements\<close>

text \<open>
  The command buffer for a flags value, and the three events of one successful
  \<^verbatim>\<open>reset_device_ioctl\<close> call.
\<close>

definition request :: "int \<Rightarrow> byte list" where
  "request flags = [8, 0, 0, 0] @ int_to_bytes_little 4 flags @ [0, 0, 0, 0, 0, 0, 0, 0]"

definition ioctl_events :: "int \<Rightarrow> int \<Rightarrow> event list" where
  "ioctl_events i flags = [OsOpen i, Ioctl i 64006 (request flags), OsClose i]"

text \<open>
  What the environment answers for device \<open>i\<close>: its BDF, and bit 1 of what a read of its
  config file returns in round \<open>r\<close>. Where the call raises there is no answer, and
  these are the empty string and 1; in a run that returns, no call has raised.
\<close>

definition bdf_of :: "'chip env \<Rightarrow> int \<Rightarrow> string" where
  "bdf_of env i = (case get_pci_bdf env i of Inl _ \<Rightarrow> [] | Inr bdf \<Rightarrow> bdf)"

definition sampled_bit :: "'chip env \<Rightarrow> nat \<Rightarrow> int \<Rightarrow> int" where
  "sampled_bit env r i =
     (case pread env r (bdf_of env i) of Inl _ \<Rightarrow> 1 | Inr b \<Rightarrow> reset_bit_of b)"

text \<open>The message of line 125 or line 128 for device \<open>i\<close>, from its sample of round \<open>r\<close>.\<close>

definition verdict :: "'chip env \<Rightarrow> nat \<Rightarrow> int \<Rightarrow> event" where
  "verdict env r i =
     Print (if sampled_bit env r i = 0 then ResetCompleted i else ResetNotCompleted i)"

text \<open>One round of reads, and the events of a whole run with \<open>m\<close> rounds.\<close>

definition round_events :: "(int \<times> string) list \<Rightarrow> event list" where
  "round_events files = map (\<lambda>(i, f). Pread f 1 4) files"

definition run_events :: "'chip env \<Rightarrow> bool \<Rightarrow> int list \<Rightarrow> nat \<Rightarrow> event list" where
  "run_events env silent is m =
     (if silent then [] else [Print (Starting is)])
     @ concat (map (\<lambda>i. GetPciBdf i # ioctl_events i 2) is)
     @ map (\<lambda>i. OpenConfig (bdf_of env i)) is
     @ concat (replicate m (map (\<lambda>i. Pread (bdf_of env i) 1 4) is @ [Sleep]))
     @ map (verdict env (m - 1)) is
     @ concat (map (\<lambda>i. ioctl_events i 0) is)
     @ (if silent then [] else [Print (Finishing is)])
     @ map NewPciChip is"

text \<open>
  The interface ids a trace mentions, in order, for one kind of event: BDF lookups,
  commands with a given flags value, classification messages, handles of the returned list.
\<close>

definition ids :: "(event \<Rightarrow> int option) \<Rightarrow> event list \<Rightarrow> int list" where
  "ids sel tr = concat (map (\<lambda>e. case sel e of None \<Rightarrow> [] | Some i \<Rightarrow> [i]) tr)"





subsection \<open>Test environments\<close>

text \<open>
  A host where every call succeeds: two devices with their BDFs, config-space bytes
  given by \<open>samples\<close>, an ioctl that leaves \<open>response\<close> in the buffer, and a clock on
  which every round of the poll loop takes one second.
\<close>

definition fake_bdf :: "int \<Rightarrow> string" where
  "fake_bdf i = (if i = 3 then ''0000:03:00.0'' else if i = 5 then ''0000:05:00.0''
                 else ''0000:00:00.0'')"

definition fake_host :: "string \<Rightarrow> (nat \<Rightarrow> string \<Rightarrow> byte list) \<Rightarrow> byte list \<Rightarrow> int env" where
  "fake_host plat samples response =
     \<lparr> platform = plat, set_rank = (\<lambda>i. i), os_open = (\<lambda>_. Inr ()),
       ioctl = (\<lambda>_ _ _. Inr response), get_pci_bdf = (\<lambda>i. Inr (fake_bdf i)),
       open_config = (\<lambda>_. Inr ()), pread = (\<lambda>r f. Inr (samples r f)),
       clock = (\<lambda>k. real k), pci_chip = (\<lambda>i. Inr i) \<rparr>"

text \<open>
  Device 3 always reads \<open>0x00\<close> and every other device \<open>0x02\<close>; or device 3 reads
  \<open>0x00\<close> in the first round only.
\<close>

definition steady_samples :: "nat \<Rightarrow> string \<Rightarrow> byte list" where
  "steady_samples r f = (if f = ''0000:03:00.0'' then [0x00] else [0x02])"

definition bouncing_samples :: "nat \<Rightarrow> string \<Rightarrow> byte list" where
  "bouncing_samples r f = (if f = ''0000:03:00.0'' \<and> r = 0 then [0x00] else [0x02])"

section \<open>The command issuer\<close>

text \<open>The request code \<open>(0xFA << 8) | 6\<close>.\<close>

lemma ioctl_code: "TENSTORRENT_IOCTL_RESET_DEVICE = 64006"
  by (simp add: TENSTORRENT_IOCTL_RESET_DEVICE_def TENSTORRENT_IOCTL_MAGIC_def)

lemma uint_byte_of_int: "uint (word_of_int x :: byte) = x mod 256"
  by (simp add: uint_word_of_int)

lemma int_from_bytes_little_Cons:
  "int_from_bytes_little (b # bs) = uint b + 256 * int_from_bytes_little bs"
  by (simp add: int_from_bytes_little_def)

lemma int_from_bytes_little_Nil: "int_from_bytes_little [] = 0"
  by (simp add: int_from_bytes_little_def)

lemma int_to_bytes_little_4:
  "int_to_bytes_little 4 v =
     [word_of_int v, word_of_int (v div 256), word_of_int (v div 65536),
      word_of_int (v div 16777216)]"
  by (simp add: int_to_bytes_little_def upt_rec drop_bit_eq_div)

lemma from_bytes_to_bytes_4:
  assumes "0 \<le> v" "v < 2 ^ 32"
  shows "int_from_bytes_little (int_to_bytes_little 4 v) = v"
proof -
  have "v div 16777216 < 256" using assms by simp
  moreover have "0 \<le> v div 16777216" using assms by simp
  ultimately have top: "v div 16777216 mod 256 = v div 16777216" by simp
  have d2: "v div 65536 = (v div 256) div 256" 
    by (simp add: div_mult2_eq[symmetric])
  have d3: "v div 16777216 = ((v div 256) div 256) div 256"
    by (simp add: div_mult2_eq[symmetric])
  show ?thesis
    unfolding int_to_bytes_little_4 int_from_bytes_little_Cons int_from_bytes_little_Nil
      uint_byte_of_int top
    unfolding d2 d3 by simp
qed

lemma length_int_to_bytes_little: "length (int_to_bytes_little n v) = n"
  by (simp add: int_to_bytes_little_def)

lemma struct_pack_IIII:
  "struct_pack ''IIII'' [a, b, c, d] = Inr bs \<Longrightarrow>
     bs = int_to_bytes_little 4 a @ int_to_bytes_little 4 b @ int_to_bytes_little 4 c
            @ int_to_bytes_little 4 d
     \<and> 0 \<le> a \<and> a < 2 ^ 32 \<and> 0 \<le> b \<and> b < 2 ^ 32 \<and> 0 \<le> c \<and> c < 2 ^ 32
     \<and> 0 \<le> d \<and> d < 2 ^ 32"
  by (auto split: if_splits)

lemma struct_pack_request:
  "0 \<le> flags \<Longrightarrow> flags < 2 ^ 32 \<Longrightarrow>
   struct_pack ''IIII'' [8, flags, 0, 0] =
     Inr ([8, 0, 0, 0] @ int_to_bytes_little 4 flags @ [0, 0, 0, 0, 0, 0, 0, 0])"
  by (simp add: int_to_bytes_little_4)

lemma struct_unpack_II:
  "struct_unpack ''II'' (int_to_bytes_little 4 c @ int_to_bytes_little 4 d) =
     Inr [int_from_bytes_little (int_to_bytes_little 4 c),
          int_from_bytes_little (int_to_bytes_little 4 d)]"
  by (simp add: struct_unpack_def length_int_to_bytes_little)

text \<open>
  Claim C1, as the code has it. For every interface whose node opens and every flags
  value that fits an unsigned 32-bit field, \<^verbatim>\<open>reset_device_ioctl\<close> opens the node,
  makes one ioctl call with request code \<open>(0xFA << 8) | 6 = 64006\<close> on the 16-byte
  buffer of the four little-endian 32-bit fields \<open>(8, flags, 0, 0)\<close>, closes the node, and,
  when the kernel leaves the four fields \<open>(a, b, c, d)\<close> in the buffer, returns true if
  and only if \<open>d\<close>, the fourth field and the second of the two output fields, is zero.
  The third field \<open>c\<close> is read into \<^verbatim>\<open>_\<close> and plays no part. A response
  \<open>(8, F, 0, 0)\<close> gives true.
\<close>

theorem reset_device_ioctl_result:
  assumes opened: "os_open env i = Inr ()"
    and flags: "0 \<le> flags" "flags < 2 ^ 32"
    and kernel: "ioctl env i 64006
        ([8, 0, 0, 0] @ int_to_bytes_little 4 flags @ [0, 0, 0, 0, 0, 0, 0, 0]) = Inr response"
    and fields: "struct_pack ''IIII'' [a, b, c, d] = Inr response"
  shows "reset_device_ioctl env i flags =
     ([OsOpen i,
       Ioctl i 64006 ([8, 0, 0, 0] @ int_to_bytes_little 4 flags @ [0, 0, 0, 0, 0, 0, 0, 0]),
       OsClose i],
      Inr (d = 0))"
proof -
  from struct_pack_IIII [OF fields]
  have resp: "response = int_to_bytes_little 4 a @ int_to_bytes_little 4 b
                @ int_to_bytes_little 4 c @ int_to_bytes_little 4 d"
    and d: "0 \<le> d" "d < 2 ^ 32"
    by simp_all
  have out: "drop 8 response = int_to_bytes_little 4 c @ int_to_bytes_little 4 d"
    by (simp add: resp length_int_to_bytes_little)
  have body: "reset_device_body env i flags =
     ([Ioctl i 64006 ([8, 0, 0, 0] @ int_to_bytes_little 4 flags @ [0, 0, 0, 0, 0, 0, 0, 0])],
      Inr (d = 0))"
    using kernel
    by (simp add: reset_device_body_def struct_pack_request [OF flags] ioctl_code out
        struct_unpack_II from_bytes_to_bytes_4 [OF d] del: struct_pack.simps)
  show ?thesis
    by (simp add: reset_device_ioctl_def opened body)
qed

text \<open>The theorem at a concrete input.\<close>

theorem reset_device_ioctl_result_witness:
  "reset_device_ioctl (simulated_kernel [8, 0, 0, 0, 2, 0, 0, 0, 0, 0, 0, 0, 0, 0, 0, 0]) 3 2 =
     ([OsOpen 3, Ioctl 3 64006 [8, 0, 0, 0, 2, 0, 0, 0, 0, 0, 0, 0, 0, 0, 0, 0], OsClose 3],
      Inr True)
   \<and> reset_device_ioctl (simulated_kernel [8, 0, 0, 0, 2, 0, 0, 0, 0, 0, 0, 0, 7, 0, 0, 0]) 3 2 =
     ([OsOpen 3, Ioctl 3 64006 [8, 0, 0, 0, 2, 0, 0, 0, 0, 0, 0, 0, 0, 0, 0, 0], OsClose 3],
      Inr False)"
proof -
  have yes: "reset_device_ioctl
      (simulated_kernel [8, 0, 0, 0, 2, 0, 0, 0, 0, 0, 0, 0, 0, 0, 0, 0]) 3 2 =
     ([OsOpen 3, Ioctl 3 64006 ([8, 0, 0, 0] @ int_to_bytes_little 4 2 @ [0, 0, 0, 0, 0, 0, 0, 0]),
       OsClose 3], Inr ((0::int) = 0))"
    by (rule reset_device_ioctl_result [where a = 8 and b = 2 and c = 0])
      (simp_all add: simulated_kernel_def int_to_bytes_little_4)
  have no: "reset_device_ioctl
      (simulated_kernel [8, 0, 0, 0, 2, 0, 0, 0, 0, 0, 0, 0, 7, 0, 0, 0]) 3 2 =
     ([OsOpen 3, Ioctl 3 64006 ([8, 0, 0, 0] @ int_to_bytes_little 4 2 @ [0, 0, 0, 0, 0, 0, 0, 0]),
       OsClose 3], Inr ((7::int) = 0))"
    by (rule reset_device_ioctl_result [where a = 8 and b = 2 and c = 0])
      (simp_all add: simulated_kernel_def int_to_bytes_little_4)
  from yes no show ?thesis by (simp add: int_to_bytes_little_4)
qed

text \<open>
  Claim C1 as stated fails. With the response \<open>(8, 2, 1, 0)\<close> the third field is not
  zero and the call returns true; with \<open>(8, 2, 0, 1)\<close> the third field is zero and the
  call returns false; and with flags \<open>-1\<close> nothing is packed: \<^verbatim>\<open>struct.pack\<close>
  raises.
\<close>

theorem reset_device_ioctl_third_field_counterexample:
  "snd (reset_device_ioctl
          (simulated_kernel [8, 0, 0, 0, 2, 0, 0, 0, 1, 0, 0, 0, 0, 0, 0, 0]) 3 2) = Inr True
   \<and> snd (reset_device_ioctl
          (simulated_kernel [8, 0, 0, 0, 2, 0, 0, 0, 0, 0, 0, 0, 1, 0, 0, 0]) 3 2) = Inr False
   \<and> snd (reset_device_ioctl
          (simulated_kernel [8, 0, 0, 0, 2, 0, 0, 0, 0, 0, 0, 0, 0, 0, 0, 0]) 3 (- 1))
        = Inl StructError"
  by (simp add: reset_device_ioctl_def reset_device_body_def simulated_kernel_def
      struct_unpack_def int_from_bytes_little_def int_to_bytes_little_4)


section \<open>The stages of a run\<close>

lemma reset_device_body_events:
  assumes "0 \<le> flags" "flags < 2 ^ 32"
    and "reset_device_body env i flags = (t, Inr b)"
  shows "t = [Ioctl i 64006 (request flags)]"
  using assms(3)
  by (auto simp: reset_device_body_def Let_def struct_pack_request [OF assms(1,2)] ioctl_code request_def
      simp del: struct_pack.simps split: sum.splits list.splits)

lemma reset_device_ioctl_events:
  assumes "0 \<le> flags" "flags < 2 ^ 32"
    and "reset_device_ioctl env i flags = (t, Inr b)"
  shows "t = ioctl_events i flags"
  using assms(3) reset_device_body_events [OF assms(1,2)]
  by (auto simp: reset_device_ioctl_def ioctl_events_def split: sum.splits prod.splits)

lemma config_write_events:
  "reset_device_ioctl env i TENSTORRENT_RESET_DEVICE_CONFIG_WRITE = (t, Inr b) \<Longrightarrow>
     t = ioctl_events i 2"
  using reset_device_ioctl_events [of 2 env i t b]
  by (simp add: TENSTORRENT_RESET_DEVICE_CONFIG_WRITE_def)

lemma restore_state_events:
  "reset_device_ioctl env i TENSTORRENT_RESET_DEVICE_RESTORE_STATE = (t, Inr b) \<Longrightarrow>
     t = ioctl_events i 0"
  using reset_device_ioctl_events [of 0 env i t b]
  by (simp add: TENSTORRENT_RESET_DEVICE_RESTORE_STATE_def)

lemma trigger_resets_success:
  "trigger_resets env is m = (t, Inr m') \<Longrightarrow>
     t = concat (map (\<lambda>i. GetPciBdf i # ioctl_events i 2) is)
     \<and> (\<forall>i \<in> set is. get_pci_bdf env i = Inr (bdf_of env i) \<and> m' i = Some (bdf_of env i))
     \<and> (\<forall>i. i \<notin> set is \<longrightarrow> m' i = m i)"
proof (induction "is" arbitrary: m t)
  case Nil
  then show ?case by simp
next
  case (Cons i rest)
  from Cons.prems obtain bdf t1 b t2 where
    bdf: "get_pci_bdf env i = Inr bdf"
    and cw: "reset_device_ioctl env i TENSTORRENT_RESET_DEVICE_CONFIG_WRITE = (t1, Inr b)"
    and rest: "trigger_resets env rest (m(i \<mapsto> bdf)) = (t2, Inr m')"
    and t: "t = GetPciBdf i # t1 @ t2"
    by (auto split: sum.splits prod.splits)
  from bdf have b: "bdf_of env i = bdf" by (simp add: bdf_of_def)
  from Cons.IH [OF rest] config_write_events [OF cw] t bdf b
  show ?case by (cases "i \<in> set rest") auto
qed

lemma dict_set_fresh: "k \<notin> fst ` set kvs \<Longrightarrow> dict_set k v kvs = kvs @ [(k, v)]"
  by (induction kvs) auto

lemma open_files_success:
  "open_files env bdfs is acc = (t, Inr files) \<Longrightarrow> distinct is \<Longrightarrow>
   set is \<inter> fst ` set acc = {} \<Longrightarrow> \<forall>i \<in> set is. bdfs i = Some (bdf i) \<Longrightarrow>
     t = map (\<lambda>i. OpenConfig (bdf i)) is \<and> files = acc @ map (\<lambda>i. (i, bdf i)) is"
proof (induction "is" arbitrary: acc t)
  case Nil
  then show ?case by simp
next
  case (Cons i rest)
  from Cons.prems(4) have bi: "bdfs i = Some (bdf i)" by simp
  from Cons.prems(3) have fresh: "i \<notin> fst ` set acc" by auto
  from Cons.prems(1) bi obtain t' where
    rest: "open_files env bdfs rest (dict_set i (bdf i) acc) = (t', Inr files)"
    and t: "t = OpenConfig (bdf i) # t'"
    by (auto split: sum.splits prod.splits)
  have disj: "set rest \<inter> fst ` set (acc @ [(i, bdf i)]) = {}"
    using Cons.prems(2,3) by auto
  from Cons.IH [of "acc @ [(i, bdf i)]" t'] rest Cons.prems(2,4) disj
  have "t' = map (\<lambda>i. OpenConfig (bdf i)) rest
        \<and> files = (acc @ [(i, bdf i)]) @ map (\<lambda>i. (i, bdf i)) rest"
    by (simp add: dict_set_fresh [OF fresh])
  with t show ?case by simp
qed

lemma poll_round_success:
  "poll_round env r files bits = (t, Inr bits') \<Longrightarrow>
     t = map (\<lambda>(i, f). Pread f 1 4) files
     \<and> (\<forall>i. i \<notin> fst ` set files \<longrightarrow> bits' i = bits i)
     \<and> (distinct (map fst files) \<longrightarrow>
          (\<forall>(i, f) \<in> set files. \<exists>b. pread env r f = Inr b \<and> bits' i = Some (reset_bit_of b)))"
proof (induction files arbitrary: bits t)
  case Nil
  then show ?case by simp
next
  case (Cons p rest)
  obtain i f where p: "p = (i, f)" by (cases p)
  from Cons.prems p obtain b t' where
    b: "pread env r f = Inr b"
    and rest: "poll_round env r rest (bits(i \<mapsto> reset_bit_of b)) = (t', Inr bits')"
    and t: "t = Pread f 1 4 # t'"
    by (auto split: sum.splits prod.splits)
  from Cons.IH [OF rest] p b t show ?case by auto
qed

lemma poll_loop_induct [consumes 1, case_names timeout raised early sleep]:
  assumes ret: "poll_loop env completed files s = Some res"
    and timeout: "\<And>s. \<not> elapsed s < 2 \<Longrightarrow> P s (s, Inr Timeout)"
    and raised: "\<And>s t e. elapsed s < 2 \<Longrightarrow>
        poll_round env (rounds s) files (reset_bit_map s) = (t, Inl e) \<Longrightarrow>
        P s (s\<lparr>poll_events := poll_events s @ t\<rparr>, Inl e)"
    and early: "\<And>s t bits. elapsed s < 2 \<Longrightarrow>
        poll_round env (rounds s) files (reset_bit_map s) = (t, Inr bits) \<Longrightarrow>
        completed = int (length files) \<Longrightarrow>
        P s (s\<lparr>rounds := Suc (rounds s), reset_bit_map := bits,
               poll_events := poll_events s @ t\<rparr>, Inr EarlyExit)"
    and sleep: "\<And>s t bits res. elapsed s < 2 \<Longrightarrow>
        poll_round env (rounds s) files (reset_bit_map s) = (t, Inr bits) \<Longrightarrow>
        completed \<noteq> int (length files) \<Longrightarrow>
        poll_loop env completed files
          \<lparr>rounds = Suc (rounds s), elapsed = clock env (Suc (rounds s)) - clock env 0,
           reset_bit_map = bits, poll_events = poll_events s @ t @ [Sleep]\<rparr> = Some res \<Longrightarrow>
        P \<lparr>rounds = Suc (rounds s), elapsed = clock env (Suc (rounds s)) - clock env 0,
           reset_bit_map = bits, poll_events = poll_events s @ t @ [Sleep]\<rparr> res \<Longrightarrow>
        P s res"
  shows "P s res"
proof -
  have "poll_loop env completed files s = Some res \<and> P s res"
  proof (rule poll_loop.raw_induct
      [where P = "\<lambda>e c fs s res. e = env \<and> c = completed \<and> fs = files \<longrightarrow>
          poll_loop env completed files s = Some res \<and> P s res"
        and env = env and completed = completed and files_map = files and s = s and y = res,
        THEN mp])
    show "poll_loop env completed files s = Some res" by (rule ret)
    show "env = env \<and> completed = completed \<and> files = files" by simp
  next
    fix f :: "'a env \<Rightarrow> int \<Rightarrow> (int \<times> string) list \<Rightarrow> poll_state
        \<Rightarrow> (poll_state \<times> (error + loop_exit)) option"
    fix e c fs s res
    assume IH: "\<And>e c fs s res. f e c fs s = Some res \<Longrightarrow>
        e = env \<and> c = completed \<and> fs = files \<longrightarrow>
        poll_loop env completed files s = Some res \<and> P s res"
    assume body: "(if elapsed s < POST_RESET_MSG_WAIT_TIME then
          (case poll_round e (rounds s) fs (reset_bit_map s) of
             (t, Inl err) \<Rightarrow> Some (s\<lparr>poll_events := poll_events s @ t\<rparr>, Inl err)
           | (t, Inr bits) \<Rightarrow>
               if c = int (length fs)
               then Some (s\<lparr>rounds := Suc (rounds s), reset_bit_map := bits,
                            poll_events := poll_events s @ t\<rparr>, Inr EarlyExit)
               else f e c fs
                      \<lparr>rounds = Suc (rounds s),
                       elapsed = clock e (Suc (rounds s)) - clock e 0,
                       reset_bit_map = bits,
                       poll_events = poll_events s @ t @ [Sleep]\<rparr>)
        else Some (s, Inr Timeout)) = Some res"
    show "e = env \<and> c = completed \<and> fs = files \<longrightarrow>
        poll_loop env completed files s = Some res \<and> P s res"
    proof
      assume eq: "e = env \<and> c = completed \<and> fs = files"
      show "poll_loop env completed files s = Some res \<and> P s res"
      proof (cases "elapsed s < 2")
        case False
        with body have res: "res = (s, Inr Timeout)"
          by (simp add: POST_RESET_MSG_WAIT_TIME_def)
        have "poll_loop env completed files s = Some res"
          using False res by (subst poll_loop.simps) (simp add: POST_RESET_MSG_WAIT_TIME_def)
        with timeout [OF False] res show ?thesis by simp
      next
        case True
        obtain t r where pr: "poll_round env (rounds s) files (reset_bit_map s) = (t, r)"
          by (cases "poll_round env (rounds s) files (reset_bit_map s)")
        show ?thesis
        proof (cases r)
          case (Inl err)
          with body True pr eq have res: "res = (s\<lparr>poll_events := poll_events s @ t\<rparr>, Inl err)"
            by (simp add: POST_RESET_MSG_WAIT_TIME_def)
          have "poll_loop env completed files s = Some res"
            using True res pr Inl
            by (subst poll_loop.simps) (simp add: POST_RESET_MSG_WAIT_TIME_def)
          with raised [OF True] pr Inl res show ?thesis by simp
        next
          case (Inr bits)
          show ?thesis
          proof (cases "completed = int (length files)")
            case c: True
            with body True pr eq Inr
            have res: "res = (s\<lparr>rounds := Suc (rounds s), reset_bit_map := bits,
                            poll_events := poll_events s @ t\<rparr>, Inr EarlyExit)"
              by (simp add: POST_RESET_MSG_WAIT_TIME_def)
            have "poll_loop env completed files s = Some res"
              using True res pr Inr c
              by (subst poll_loop.simps) (simp add: POST_RESET_MSG_WAIT_TIME_def)
            with early [OF True _ c] pr Inr res show ?thesis by simp
          next
            case c: False
            let ?s2 = "\<lparr>rounds = Suc (rounds s),
                       elapsed = clock env (Suc (rounds s)) - clock env 0,
                       reset_bit_map = bits,
                       poll_events = poll_events s @ t @ [Sleep]\<rparr>"
            from c body True pr eq Inr
            have "f env completed files ?s2 = Some res"
              by (simp add: POST_RESET_MSG_WAIT_TIME_def)
            from IH [OF this]
            have rec: "poll_loop env completed files ?s2 = Some res" and P2: "P ?s2 res"
              by simp_all
            have "poll_loop env completed files s = Some res"
              using True rec pr Inr c
              by (subst poll_loop.simps) (simp add: POST_RESET_MSG_WAIT_TIME_def)
            with sleep [OF True _ c rec P2] pr Inr show ?thesis by simp
          qed
        qed
      qed
    qed
  qed
  then show ?thesis by simp
qed

lemma poll_loop_exit:
  assumes "poll_loop env completed files s = Some res"
  shows "(snd res = Inr Timeout \<longrightarrow> 2 \<le> elapsed (fst res))
       \<and> (snd res = Inr EarlyExit \<longrightarrow> completed = int (length files))"
  using assms
  by (induction rule: poll_loop_induct) auto

lemma poll_loop_rounds:
  assumes "poll_loop env completed files s = Some res"
  shows "rounds s \<le> rounds (fst res) \<and> (rounds (fst res) = rounds s \<and> (\<exists>ex. snd res = Inr ex) \<longrightarrow> res = (s, Inr Timeout))"
  using assms
  by (induction rule: poll_loop_induct) auto

lemma poll_round_events:
  "poll_round env r files bits = (t, Inr bits') \<Longrightarrow> t = round_events files"
  using poll_round_success [of env r files bits t bits'] by (simp add: round_events_def)

lemma poll_loop_events:
  assumes "poll_loop env completed files s = Some res"
  shows "rounds s \<le> rounds (fst res)
       \<and> (snd res = Inr Timeout \<longrightarrow>
            poll_events (fst res) = poll_events s
              @ concat (replicate (rounds (fst res) - rounds s) (round_events files @ [Sleep])))
       \<and> (snd res = Inr EarlyExit \<longrightarrow> Suc (rounds s) \<le> rounds (fst res) \<and>
            poll_events (fst res) = poll_events s
              @ concat (replicate (rounds (fst res) - Suc (rounds s)) (round_events files @ [Sleep]))
              @ round_events files)"
  using assms
proof (induction rule: poll_loop_induct)
  case (timeout s)
  then show ?case by simp
next
  case (raised s t e)
  then show ?case by simp
next
  case (early s t bits)
  then show ?case by (simp add: poll_round_events)
next
  case (sleep s t bits res)
  have t: "t = round_events files"
    using sleep(2) by (rule poll_round_events)
  from sleep(5) have le: "Suc (rounds s) \<le> rounds (fst res)" by simp
  then have unroll: "rounds (fst res) - rounds s = Suc (rounds (fst res) - Suc (rounds s))"
    by simp
  show ?case
  proof (intro conjI impI)
    show "rounds s \<le> rounds (fst res)" using le by simp
  next
    assume "snd res = Inr Timeout"
    with sleep(5) show "poll_events (fst res) = poll_events s
        @ concat (replicate (rounds (fst res) - rounds s) (round_events files @ [Sleep]))"
      by (simp add: unroll t)
  next
    assume ex: "snd res = Inr EarlyExit"
    with sleep(5) have le2: "Suc (Suc (rounds s)) \<le> rounds (fst res)" by simp
    then show "Suc (rounds s) \<le> rounds (fst res)" by simp
    from le2 have unroll2:
      "rounds (fst res) - Suc (rounds s) = Suc (rounds (fst res) - Suc (Suc (rounds s)))"
      by simp
    from ex sleep(5) show "poll_events (fst res) = poll_events s
        @ concat (replicate (rounds (fst res) - Suc (rounds s)) (round_events files @ [Sleep]))
        @ round_events files"
      by (simp add: unroll2 t)
  qed
qed

lemma poll_loop_bits:
  assumes "poll_loop env completed files s = Some res"
    and "distinct (map fst files)"
  shows "(\<forall>ex. snd res = Inr ex \<longrightarrow> rounds s < rounds (fst res) \<longrightarrow>
            (\<forall>(i, f) \<in> set files. \<exists>b. pread env (rounds (fst res) - 1) f = Inr b
                \<and> reset_bit_map (fst res) i = Some (reset_bit_of b)))
       \<and> (\<forall>i. i \<notin> fst ` set files \<longrightarrow> reset_bit_map (fst res) i = reset_bit_map s i)"
  using assms
proof (induction rule: poll_loop_induct)
  case (timeout s)
  then show ?case by simp
next
  case (raised s t e)
  then show ?case by simp
next
  case (early s t bits)
  from poll_round_success [OF early(2)] early(4) show ?case by simp
next
  case (sleep s t bits res)
  let ?s2 = "\<lparr>rounds = Suc (rounds s), elapsed = clock env (Suc (rounds s)) - clock env 0,
           reset_bit_map = bits, poll_events = poll_events s @ t @ [Sleep]\<rparr>"
  note pr = poll_round_success [OF sleep(2)]
  note IH = sleep(5) [OF sleep(6)]
  note rd = poll_loop_rounds [OF sleep(4)]
  show ?case
  proof (intro conjI allI impI)
    fix ex
    assume ex: "snd res = Inr ex" and "rounds s < rounds (fst res)"
    show "\<forall>(i, f) \<in> set files. \<exists>b. pread env (rounds (fst res) - 1) f = Inr b
                \<and> reset_bit_map (fst res) i = Some (reset_bit_of b)"
    proof (cases "rounds (fst res) = Suc (rounds s)")
      case True
      with rd ex have "res = (?s2, Inr Timeout)" by simp
      with pr sleep(6) show ?thesis by simp
    next
      case False
      with rd have "rounds ?s2 < rounds (fst res)" by simp
      with IH ex show ?thesis by blast
    qed
  next
    fix i
    assume "i \<notin> fst ` set files"
    with IH pr show "reset_bit_map (fst res) i = reset_bit_map s i" by simp
  qed
qed

lemma poll_loop_clock:
  assumes "poll_loop env completed files s = Some res"
  shows "rounds s < rounds (fst res) \<longrightarrow>
           elapsed s < 2
           \<and> (\<forall>k. rounds s < k \<and> k < rounds (fst res) \<longrightarrow> clock env k - clock env 0 < 2)
           \<and> (snd res = Inr Timeout \<longrightarrow>
                elapsed (fst res) = clock env (rounds (fst res)) - clock env 0)"
  using assms
proof (induction rule: poll_loop_induct)
  case (timeout s)
  then show ?case by simp
next
  case (raised s t e)
  then show ?case by simp
next
  case (early s t bits)
  then show ?case by auto
next
  case (sleep s t bits res)
  let ?s2 = "\<lparr>rounds = Suc (rounds s), elapsed = clock env (Suc (rounds s)) - clock env 0,
           reset_bit_map = bits, poll_events = poll_events s @ t @ [Sleep]\<rparr>"
  note rd = poll_loop_rounds [OF sleep(4)]
  show ?case
  proof (cases "rounds (fst res) = Suc (rounds s)")
    case True
    show ?thesis
    proof (cases "\<exists>ex. snd res = Inr ex")
      case ex: True
      with True rd have "res = (?s2, Inr Timeout)" by simp
      with sleep(1) True show ?thesis by auto
    next
      case False
      with sleep(1) True show ?thesis by auto
    qed
  next
    case False
    with rd have lt: "rounds ?s2 < rounds (fst res)" by simp
    with sleep(5) have IH: "elapsed ?s2 < 2"
      "\<forall>k. rounds ?s2 < k \<and> k < rounds (fst res) \<longrightarrow> clock env k - clock env 0 < 2"
      "snd res = Inr Timeout \<longrightarrow> elapsed (fst res) = clock env (rounds (fst res)) - clock env 0"
      by simp_all
    show ?thesis
    proof (intro impI conjI allI)
      show "elapsed s < 2" by (rule sleep(1))
    next
      fix k assume k: "rounds s < k \<and> k < rounds (fst res)"
      show "clock env k - clock env 0 < 2"
      proof (cases "k = Suc (rounds s)")
        case True
        with IH(1) show ?thesis by simp
      next
        case False
        with k IH(2) show ?thesis by simp
      qed
    next
      assume "snd res = Inr Timeout"
      with IH(3) show "elapsed (fst res) = clock env (rounds (fst res)) - clock env 0" by simp
    qed
  qed
qed

lemma poll_loop_returns:
  assumes "clock env N - clock env 0 \<ge> 2"
    and "rounds s \<le> N" and "0 < N"
    and "0 < rounds s \<longrightarrow> elapsed s = clock env (rounds s) - clock env 0"
  shows "\<exists>res. poll_loop env completed files s = Some res"
  using assms(2,4)
proof (induction "N - rounds s" arbitrary: s rule: less_induct)
  case less
  show ?case
  proof (cases "elapsed s < 2")
    case False
    then show ?thesis
      by (subst poll_loop.simps) (simp add: POST_RESET_MSG_WAIT_TIME_def)
  next
    case True
    have lt: "rounds s < N"
    proof (rule ccontr)
      assume "\<not> rounds s < N"
      with less.prems(1) have "rounds s = N" by simp
      with less.prems(2) assms(3) have "elapsed s = clock env N - clock env 0" by simp
      with assms(1) True show False by simp
    qed
    obtain t r where pr: "poll_round env (rounds s) files (reset_bit_map s) = (t, r)"
      by (cases "poll_round env (rounds s) files (reset_bit_map s)")
    show ?thesis
    proof (cases r)
      case (Inl e)
      with True pr show ?thesis
        by (subst poll_loop.simps) (simp add: POST_RESET_MSG_WAIT_TIME_def)
    next
      case (Inr bits)
      let ?s2 = "\<lparr>rounds = Suc (rounds s), elapsed = clock env (Suc (rounds s)) - clock env 0,
           reset_bit_map = bits, poll_events = poll_events s @ t @ [Sleep]\<rparr>"
      show ?thesis
      proof (cases "completed = int (length files)")
        case c: True
        with True pr Inr show ?thesis
          by (subst poll_loop.simps) (simp add: POST_RESET_MSG_WAIT_TIME_def)
      next
        case c: False
        have "\<exists>res. poll_loop env completed files ?s2 = Some res"
          by (rule less.hyps) (use lt in simp_all)
        then obtain res where "poll_loop env completed files ?s2 = Some res" ..
        with True pr Inr c show ?thesis
          by (subst poll_loop.simps) (simp add: POST_RESET_MSG_WAIT_TIME_def)
      qed
    qed
  qed
qed

lemma clock_after_sleeps:
  assumes "\<forall>k. clock env k + 1 / 1000 \<le> clock env (Suc k)"
  shows "clock env 0 + real n / 1000 \<le> clock env n"
proof (induction n)
  case 0
  show ?case by simp
next
  case (Suc n)
  from assms have "clock env n + 1 / 1000 \<le> clock env (Suc n)" by blast
  with Suc show ?case by (simp add: field_simps)
qed

lemma poll_round_raised:
  "poll_round env r files bits = (t, Inl e) \<Longrightarrow> \<exists>(i, f) \<in> set files. \<exists>e. pread env r f = Inl e"
proof (induction files arbitrary: bits t)
  case Nil
  then show ?case by simp
next
  case (Cons p rest)
  obtain i f where p: "p = (i, f)" by (cases p)
  show ?case
  proof (cases "pread env r f")
    case (Inl e')
    with p show ?thesis by auto
  next
    case (Inr b)
    with Cons.prems p obtain t' where
      "poll_round env r rest (bits(i \<mapsto> reset_bit_of b)) = (t', Inl e)"
      by (auto split: prod.splits)
    from Cons.IH [OF this] show ?thesis by auto
  qed
qed

lemma poll_loop_not_raised:
  assumes "poll_loop env completed files s = Some res"
    and "\<forall>r. \<forall>(i, f) \<in> set files. \<exists>b. pread env r f = Inr b"
  shows "\<exists>ex. snd res = Inr ex"
  using assms
proof (induction rule: poll_loop_induct)
  case (raised s t e)
  from poll_round_raised [OF raised(2)]
  obtain i f e' where mem: "(i, f) \<in> set files" and bad: "pread env (rounds s) f = Inl e'"
    by auto
  from raised(3) mem obtain b where "pread env (rounds s) f = Inr b" by fastforce
  with bad show ?case by simp
qed simp_all

lemma classify_success:
  "classify is bits c = (t, Inr c') \<Longrightarrow>
     t = map (\<lambda>i. Print (if bits i = Some 0 then ResetCompleted i else ResetNotCompleted i)) is"
proof (induction "is" arbitrary: c t)
  case Nil
  then show ?case by simp
next
  case (Cons i rest)
  then show ?case
    by (auto split: option.splits if_splits prod.splits)
qed

lemma restore_all_success:
  "restore_all env is = (t, Inr u) \<Longrightarrow> t = concat (map (\<lambda>i. ioctl_events i 0) is)"
proof (induction "is" arbitrary: t)
  case Nil
  then show ?case by simp
next
  case (Cons i rest)
  from Cons.prems obtain t1 b t2 where
    r: "reset_device_ioctl env i TENSTORRENT_RESET_DEVICE_RESTORE_STATE = (t1, Inr b)"
    and rest: "restore_all env rest = (t2, Inr u)" and t: "t = t1 @ t2"
    by (auto split: sum.splits prod.splits)
  from restore_state_events [OF r] Cons.IH [OF rest] t show ?case by simp
qed

lemma pci_chips_success:
  "pci_chips env is = (t, Inr cs) \<Longrightarrow>
     t = map NewPciChip is \<and> map (pci_chip env) is = map Inr cs"
proof (induction "is" arbitrary: t cs)
  case Nil
  then show ?case by simp
next
  case (Cons i rest)
  then show ?case
    by (auto split: sum.splits prod.splits)
qed

lemma report_and_restore_success:
  assumes "report_and_restore env silent is bits = (t, Inr cs)"
  shows "t = map (\<lambda>i. Print (if bits i = Some 0 then ResetCompleted i else ResetNotCompleted i)) is
           @ concat (map (\<lambda>i. ioctl_events i 0) is)
           @ (if silent then [] else [Print (Finishing is)])
           @ map NewPciChip is
       \<and> map (pci_chip env) is = map Inr cs"
proof -
  from assms obtain t1 c t2 u t3 where
    c: "classify is bits 0 = (t1, Inr c)"
    and r: "restore_all env is = (t2, Inr u)"
    and p: "pci_chips env is = (t3, Inr cs)"
    and t: "t = t1 @ t2 @ (if silent then [] else [Print (Finishing is)]) @ t3"
    by (auto simp: report_and_restore_def bind_io_def split: sum.splits prod.splits if_splits)
  from classify_success [OF c] restore_all_success [OF r] pci_chips_success [OF p] t
  show ?thesis by simp
qed

lemma list_of_set_distinct: "distinct (list_of_set env xs)"
  by (simp add: list_of_set_def)

lemma list_of_set_set: "set (list_of_set env xs) = set xs"
  by (simp add: list_of_set_def)

lemma list_of_set_Nil: "list_of_set env xs = [] \<longleftrightarrow> xs = []"
  using list_of_set_set [of env xs] by (metis set_empty)

lemma open_files_nonempty:
  "open_files env bdfs is acc = (t, Inr files) \<Longrightarrow> is \<noteq> [] \<or> acc \<noteq> [] \<Longrightarrow> files \<noteq> []"
proof (induction "is" arbitrary: acc t)
  case Nil
  then show ?case by simp
next
  case (Cons i rest)
  from Cons.prems(1) obtain bdf t' where
    "open_files env bdfs rest (dict_set i bdf acc) = (t', Inr files)"
    by (auto split: option.splits sum.splits prod.splits)
  moreover have "dict_set i bdf acc \<noteq> []" by (cases acc) (auto split: if_splits)
  ultimately show ?case using Cons.IH by blast
qed

lemma poll_loop_no_files:
  "poll_loop env 0 [] \<lparr>rounds = 0, elapsed = 0, reset_bit_map = bits, poll_events = t\<rparr> =
     Some (\<lparr>rounds = 1, elapsed = 0, reset_bit_map = bits, poll_events = t\<rparr>, Inr EarlyExit)"
  by (subst poll_loop.simps) (simp add: POST_RESET_MSG_WAIT_TIME_def)

lemma dom_fold_upd: "dom (fold (\<lambda>i m. m(i \<mapsto> v)) is m0) = set is \<union> dom m0"
  by (induction "is" arbitrary: m0) auto

lemma poll_stage_success:
  assumes ps: "poll_stage env is bdfs = Some (s, Inr ex)"
    and d: "distinct is"
    and b: "\<forall>i \<in> set is. bdfs i = Some (bdf_of env i)"
  shows "\<exists>m. poll_events s = map (\<lambda>i. OpenConfig (bdf_of env i)) is
                  @ concat (replicate m (map (\<lambda>i. Pread (bdf_of env i) 1 4) is @ [Sleep]))
           \<and> (is = [] \<longrightarrow> m = 0 \<and> ex = EarlyExit \<and> rounds s = 1 \<and> elapsed s = 0)
           \<and> (is \<noteq> [] \<longrightarrow> 0 < m \<and> ex = Timeout \<and> rounds s = m
                 \<and> 2 \<le> clock env m - clock env 0
                 \<and> (\<forall>k. 0 < k \<and> k < m \<longrightarrow> clock env k - clock env 0 < 2))
           \<and> (\<forall>i \<in> set is. \<exists>b. pread env (m - 1) (bdf_of env i) = Inr b)
           \<and> (\<forall>i \<in> set is. reset_bit_map s i = Some (sampled_bit env (m - 1) i))
           \<and> dom (reset_bit_map s) = set is"
proof -
  let ?init = "fold (\<lambda>pci_interface m. m(pci_interface \<mapsto> (1::int))) is Map.empty"
  from ps obtain t2 files where
    opened: "open_files env bdfs is [] = (t2, Inr files)"
    and loop: "poll_loop env 0 files
        \<lparr>rounds = 0, elapsed = 0, reset_bit_map = ?init, poll_events = t2\<rparr> = Some (s, Inr ex)"
    by (auto simp: poll_stage_def split: prod.splits sum.splits)
  let ?s0 = "\<lparr>rounds = 0, elapsed = 0, reset_bit_map = ?init, poll_events = t2\<rparr>"
  from open_files_success [OF opened d _ b]
  have t2: "t2 = map (\<lambda>i. OpenConfig (bdf_of env i)) is"
    and files: "files = map (\<lambda>i. (i, bdf_of env i)) is"
    by simp_all
  have keys: "map fst files = is" by (simp add: files comp_def)
  have re: "round_events files = map (\<lambda>i. Pread (bdf_of env i) 1 4) is"
    by (simp add: round_events_def files comp_def)
  have dom0: "dom ?init = set is" by (simp add: dom_fold_upd)
  show ?thesis
  proof (cases "is = []")
    case True
    with files have "files = []" by simp
    with loop poll_loop_no_files [of env ?init t2]
    have "s = \<lparr>rounds = 1, elapsed = 0, reset_bit_map = ?init, poll_events = t2\<rparr>"
      and "ex = EarlyExit"
      by simp_all
    with True t2 show ?thesis by (intro exI [of _ 0]) simp
  next
    case False
    with files have ne: "int (length files) \<noteq> 0" by simp
    from poll_loop_exit [OF loop] ne have ex: "ex = Timeout" and late: "2 \<le> elapsed s"
      by (cases ex; simp)+
    have pos: "0 < rounds s"
    proof (rule ccontr)
      assume "\<not> 0 < rounds s"
      with poll_loop_rounds [OF loop] have "s = ?s0" by simp
      with late show False by simp
    qed
    from poll_loop_clock [OF loop] pos ex
    have before: "\<forall>k. 0 < k \<and> k < rounds s \<longrightarrow> clock env k - clock env 0 < 2"
      and el: "elapsed s = clock env (rounds s) - clock env 0"
      by simp_all
    from poll_loop_events [OF loop] ex re t2
    have ev: "poll_events s = map (\<lambda>i. OpenConfig (bdf_of env i)) is
        @ concat (replicate (rounds s) (map (\<lambda>i. Pread (bdf_of env i) 1 4) is @ [Sleep]))"
      by simp
    from poll_loop_bits [OF loop] keys d pos
    have last: "\<forall>(i, f) \<in> set files. \<exists>b. pread env (rounds s - 1) f = Inr b
                \<and> reset_bit_map s i = Some (reset_bit_of b)"
      and other: "\<forall>i. i \<notin> fst ` set files \<longrightarrow> reset_bit_map s i = ?init i"
      by simp_all
    have reads: "\<forall>i \<in> set is. \<exists>b. pread env (rounds s - 1) (bdf_of env i) = Inr b"
    proof
      fix i assume "i \<in> set is"
      then have "(i, bdf_of env i) \<in> set files" by (simp add: files)
      with last show "\<exists>b. pread env (rounds s - 1) (bdf_of env i) = Inr b" by fastforce
    qed
    have bits: "\<forall>i \<in> set is. reset_bit_map s i = Some (sampled_bit env (rounds s - 1) i)"
    proof
      fix i assume "i \<in> set is"
      then have "(i, bdf_of env i) \<in> set files" by (simp add: files)
      with last obtain b where "pread env (rounds s - 1) (bdf_of env i) = Inr b"
        and "reset_bit_map s i = Some (reset_bit_of b)" by fastforce
      then show "reset_bit_map s i = Some (sampled_bit env (rounds s - 1) i)"
        by (simp add: sampled_bit_def)
    qed
    have "dom (reset_bit_map s) = set is"
    proof (rule set_eqI)
      fix i
      show "i \<in> dom (reset_bit_map s) \<longleftrightarrow> i \<in> set is"
      proof (cases "i \<in> set is")
        case True
        with bits show ?thesis by auto
      next
        case False
        then have "i \<notin> fst ` set files" using keys by (metis set_map)
        with other have "reset_bit_map s i = ?init i" by simp
        with False dom0 show ?thesis by (auto simp: dom_def)
      qed
    qed
    with False pos ex late el before ev bits reads show ?thesis
      by (intro exI [of _ "rounds s"]) simp
  qed
qed

lemma full_lds_reset_success:
  assumes run: "full_lds_reset env xs reset_m3 silent = Some (tr, Inr chips)"
  shows "\<not> startswith (platform env) ''arm'' \<and> \<not> startswith (platform env) ''aarch''
       \<and> (\<exists>m. tr = run_events env silent (list_of_set env xs) m
             \<and> (xs = [] \<longrightarrow> m = 0)
             \<and> (xs \<noteq> [] \<longrightarrow> 0 < m \<and> 2 \<le> clock env m - clock env 0
                   \<and> (\<forall>k. 0 < k \<and> k < m \<longrightarrow> clock env k - clock env 0 < 2))
             \<and> (\<forall>i \<in> set xs. \<exists>b. pread env (m - 1) (bdf_of env i) = Inr b))
       \<and> (\<forall>i \<in> set xs. get_pci_bdf env i = Inr (bdf_of env i))
       \<and> map (pci_chip env) (list_of_set env xs) = map Inr chips"
proof -
  let ?is = "list_of_set env xs"
  let ?t0 = "if \<not> silent then [Print (Starting ?is)] else []"
  from run have plat: "\<not> startswith (platform env) ''arm''" "\<not> startswith (platform env) ''aarch''"
    by (auto simp: full_lds_reset_def split: if_splits)
  with run obtain t1 bdfs s ex t3 where
    tr1: "trigger_resets env ?is Map.empty = (t1, Inr bdfs)"
    and ps: "poll_stage env ?is bdfs = Some (s, Inr ex)"
    and rr: "report_and_restore env silent ?is (reset_bit_map s) = (t3, Inr chips)"
    and tr: "tr = ?t0 @ t1 @ poll_events s @ t3"
    by (auto simp: full_lds_reset_def Let_def split: prod.splits sum.splits option.splits)
  from trigger_resets_success [OF tr1]
  have t1: "t1 = concat (map (\<lambda>i. GetPciBdf i # ioctl_events i 2) ?is)"
    and bdf: "\<forall>i \<in> set ?is. get_pci_bdf env i = Inr (bdf_of env i)"
    and bdfs: "\<forall>i \<in> set ?is. bdfs i = Some (bdf_of env i)"
    by simp_all
  from poll_stage_success [OF ps list_of_set_distinct bdfs]
  obtain m where
    ev: "poll_events s = map (\<lambda>i. OpenConfig (bdf_of env i)) ?is
           @ concat (replicate m (map (\<lambda>i. Pread (bdf_of env i) 1 4) ?is @ [Sleep]))"
    and empty: "?is = [] \<longrightarrow> m = 0"
    and nonempty: "?is \<noteq> [] \<longrightarrow> 0 < m \<and> 2 \<le> clock env m - clock env 0
                 \<and> (\<forall>k. 0 < k \<and> k < m \<longrightarrow> clock env k - clock env 0 < 2)"
    and reads: "\<forall>i \<in> set ?is. \<exists>b. pread env (m - 1) (bdf_of env i) = Inr b"
    and bits: "\<forall>i \<in> set ?is. reset_bit_map s i = Some (sampled_bit env (m - 1) i)"
    by blast
  from report_and_restore_success [OF rr]
  have t3: "t3 = map (\<lambda>i. Print (if reset_bit_map s i = Some 0 then ResetCompleted i
                                  else ResetNotCompleted i)) ?is
           @ concat (map (\<lambda>i. ioctl_events i 0) ?is)
           @ (if silent then [] else [Print (Finishing ?is)])
           @ map NewPciChip ?is"
    and chips: "map (pci_chip env) ?is = map Inr chips"
    by simp_all
  have verdicts: "map (\<lambda>i. Print (if reset_bit_map s i = Some 0 then ResetCompleted i
                                  else ResetNotCompleted i)) ?is = map (verdict env (m - 1)) ?is"
    using bits by (simp add: verdict_def)
  have "tr = run_events env silent ?is m"
    by (simp add: tr t1 ev t3 verdicts run_events_def)
  with empty nonempty plat bdf chips reads show ?thesis
    by (auto simp: list_of_set_Nil list_of_set_set)
qed

section \<open>Evaluating the model\<close>

lemmas fake_simps = fake_host_def fake_bdf_def steady_samples_def bouncing_samples_def
  reset_bit_of_def int_from_bytes_little_def POST_RESET_MSG_WAIT_TIME_def

lemmas run_simps = full_lds_reset_def fake_host_def startswith_def list_of_set_def
  reset_device_ioctl_def reset_device_body_def struct_unpack_def int_from_bytes_little_def
  int_to_bytes_little_4 fake_bdf_def poll_stage_def poll_loop.simps
  POST_RESET_MSG_WAIT_TIME_def reset_bit_of_def report_and_restore_def bind_io_def
  TENSTORRENT_RESET_DEVICE_CONFIG_WRITE_def TENSTORRENT_RESET_DEVICE_RESTORE_STATE_def
  ioctl_code steady_samples_def bouncing_samples_def

section \<open>The poll loop\<close>

text \<open>
  Claim C2. For every non-empty device list the \<^verbatim>\<open>break\<close> of line 118 is never
  taken. The poll stage sets \<^verbatim>\<open>completed\<close> to 0 before the loop and passes it
  through unchanged, and the dictionary of files of a non-empty list is not empty, so
  whenever the loop is left normally it is left by its condition, with the elapsed time
  at or beyond the two-second timeout; no assumption is made on the bytes read.
\<close>

theorem early_exit_never_taken:
  assumes nonempty: "pci_interfaces \<noteq> []"
    and polled: "poll_stage env pci_interfaces pci_bdf_list = Some (s, Inr ex)"
  shows "ex = Timeout \<and> POST_RESET_MSG_WAIT_TIME \<le> elapsed s"
proof -
  from polled obtain t files s0 where
    opened: "open_files env pci_bdf_list pci_interfaces [] = (t, Inr files)"
    and loop: "poll_loop env 0 files s0 = Some (s, Inr ex)"
    by (auto simp: poll_stage_def split: prod.splits sum.splits)
  from open_files_nonempty [OF opened] nonempty have "int (length files) \<noteq> 0" by simp
  with poll_loop_exit [OF loop] show ?thesis
    by (cases ex) (simp_all add: POST_RESET_MSG_WAIT_TIME_def)
qed

text \<open>The theorem at a concrete input.\<close>

theorem early_exit_never_taken_witness:
  "\<exists>s. poll_stage (fake_host ''x86_64'' steady_samples [8, 0, 0, 0, 2, 0, 0, 0, 0, 0, 0, 0, 0, 0, 0, 0])
          [3, 5] [3 \<mapsto> ''0000:03:00.0'', 5 \<mapsto> ''0000:05:00.0''] = Some (s, Inr Timeout)
       \<and> reset_bit_map s 3 = Some 0
       \<and> POST_RESET_MSG_WAIT_TIME \<le> elapsed s"
proof -
  let ?E = "fake_host ''x86_64'' steady_samples [8, 0, 0, 0, 2, 0, 0, 0, 0, 0, 0, 0, 0, 0, 0, 0]"
  let ?M = "[3 \<mapsto> ''0000:03:00.0'', 5 \<mapsto> ''0000:05:00.0'']"
  have "\<exists>s ex. poll_stage ?E [3, 5] ?M = Some (s, Inr ex) \<and> reset_bit_map s 3 = Some 0"
    by (simp add: poll_stage_def poll_loop.simps fake_simps)
  then obtain s ex where run: "poll_stage ?E [3, 5] ?M = Some (s, Inr ex)"
    and bit: "reset_bit_map s 3 = Some 0" by blast
  have ne: "[3, 5] \<noteq> ([] :: int list)" by simp
  from early_exit_never_taken [OF ne run] run bit show ?thesis by blast
qed






text \<open>
  Claim C7. For a non-empty dictionary of files, a poll source that never raises and
  never returns bit value 0, and a clock that every round (with its sleep of one
  millisecond) advances by at least one millisecond, the loop returns, by its condition:
  after at least one and at most 2000 rounds, at the first reading of the clock that is
  2.0 seconds or more after the start.
\<close>

theorem poll_loop_stops_at_timeout:
  assumes nonempty: "files \<noteq> []"
    and never_zero: "\<forall>r. \<forall>(i, f) \<in> set files. \<exists>b. pread env r f = Inr b \<and> reset_bit_of b \<noteq> 0"
    and sleeps: "\<forall>k. clock env k + 1 / 1000 \<le> clock env (Suc k)"
  shows "\<exists>s'. poll_loop env 0 files
                 \<lparr>rounds = 0, elapsed = 0, reset_bit_map = bits, poll_events = t\<rparr>
               = Some (s', Inr Timeout)
             \<and> 0 < rounds s' \<and> rounds s' \<le> 2000
             \<and> elapsed s' = clock env (rounds s') - clock env 0
             \<and> 2 \<le> elapsed s'
             \<and> (\<forall>k. 0 < k \<and> k < rounds s' \<longrightarrow> clock env k - clock env 0 < 2)"
proof -
  let ?s = "\<lparr>rounds = 0, elapsed = 0, reset_bit_map = bits, poll_events = t\<rparr>"
  from clock_after_sleeps [OF sleeps, of 2000]
  have far: "clock env 2000 - clock env 0 \<ge> 2" by simp
  from poll_loop_returns [OF far, of ?s 0 files]
  obtain res where ret: "poll_loop env 0 files ?s = Some res" by auto
  from never_zero have reads: "\<forall>r. \<forall>(i, f) \<in> set files. \<exists>b. pread env r f = Inr b"
    by fastforce
  from poll_loop_not_raised [OF ret reads] obtain ex where ex: "snd res = Inr ex" by blast
  from poll_loop_exit [OF ret] ex nonempty have tm: "ex = Timeout" and late: "2 \<le> elapsed (fst res)"
    by (cases ex; simp)+
  have pos: "0 < rounds (fst res)"
  proof (rule ccontr)
    assume "\<not> 0 < rounds (fst res)"
    with poll_loop_rounds [OF ret] ex have "res = (?s, Inr Timeout)" by simp
    with late show False by simp
  qed
  from poll_loop_clock [OF ret] pos ex tm
  have before: "\<forall>k. 0 < k \<and> k < rounds (fst res) \<longrightarrow> clock env k - clock env 0 < 2"
    and el: "elapsed (fst res) = clock env (rounds (fst res)) - clock env 0"
    by simp_all
  have "rounds (fst res) \<le> 2000"
  proof (rule ccontr)
    assume "\<not> rounds (fst res) \<le> 2000"
    with before have "clock env 2000 - clock env 0 < 2" by simp
    with far show False by simp
  qed
  with ret ex tm pos el late before show ?thesis
    by (intro exI [of _ "fst res"]) (simp add: prod_eq_iff)
qed

text \<open>The theorem at a concrete input.\<close>

theorem poll_loop_stops_at_timeout_witness:
  "\<exists>s. poll_loop (fake_host ''x86_64'' steady_samples [8, 0, 0, 0, 2, 0, 0, 0, 0, 0, 0, 0, 0, 0, 0, 0])
          0 [(5, ''0000:05:00.0'')]
          \<lparr>rounds = 0, elapsed = 0, reset_bit_map = [5 \<mapsto> 1], poll_events = []\<rparr>
        = Some (s, Inr Timeout)
      \<and> 0 < rounds s \<and> rounds s \<le> 2000 \<and> 2 \<le> elapsed s"
proof -
  let ?E = "fake_host ''x86_64'' steady_samples [8, 0, 0, 0, 2, 0, 0, 0, 0, 0, 0, 0, 0, 0, 0, 0]"
  have ne: "[(5, ''0000:05:00.0'')] \<noteq> ([] :: (int \<times> string) list)" by simp
  have never_zero: "\<forall>r. \<forall>(i, f) \<in> set [(5::int, ''0000:05:00.0'')].
      \<exists>b. pread ?E r f = Inr b \<and> reset_bit_of b \<noteq> 0"
    by (simp add: fake_simps)
  have sleeps: "\<forall>k. clock ?E k + 1 / 1000 \<le> clock ?E (Suc k)"
    by (simp add: fake_simps)
  from poll_loop_stops_at_timeout [OF ne never_zero sleeps, of "[5 \<mapsto> 1]" "[]"]
  show ?thesis by blast
qed

section \<open>The preflight check and the empty batch\<close>

text \<open>
  Claim C8. On a host whose platform string starts with \<^verbatim>\<open>arm\<close> or
  \<^verbatim>\<open>aarch\<close>, \<^verbatim>\<open>full_lds_reset\<close> prints the message and exits with status 1,
  for every device list: the message is the only event, so no BDF is looked up, no device
  node is opened, no ioctl is made, and no config file is opened or read.
\<close>

theorem arm_host_aborts_before_device_io:
  assumes "startswith (platform env) ''arm'' \<or> startswith (platform env) ''aarch''"
  shows "full_lds_reset env pci_interfaces reset_m3 silent =
           Some ([Print ArmUnsupported], Inl (SystemExit 1))"
  using assms by (simp add: full_lds_reset_def)

text \<open>The theorem at a concrete input.\<close>

theorem arm_host_aborts_before_device_io_witness:
  "full_lds_reset (fake_host ''aarch64'' steady_samples [8, 0, 0, 0, 2, 0, 0, 0, 0, 0, 0, 0, 0, 0, 0, 0])
     [3, 3, 5] False False = Some ([Print ArmUnsupported], Inl (SystemExit 1))"
proof -
  let ?E = "fake_host ''aarch64'' steady_samples [8, 0, 0, 0, 2, 0, 0, 0, 0, 0, 0, 0, 0, 0, 0, 0]"
  have arm: "startswith (platform ?E) ''arm'' \<or> startswith (platform ?E) ''aarch''"
    by (simp add: fake_host_def startswith_def)
  show ?thesis by (rule arm_host_aborts_before_device_io [OF arm])
qed

text \<open>
  Claim C10. For the empty device list on a host that is not ARM, \<^verbatim>\<open>full_lds_reset\<close>
  returns the empty list of handles, and its only events are the two messages (none when
  silent): no ioctl and no config-space read. The first loop has nothing to do, and the
  poll loop is left by \<^verbatim>\<open>break\<close> in its first iteration, with no sleep and the elapsed
  time still 0.
\<close>

theorem empty_batch_returns_at_once:
  assumes "\<not> startswith (platform env) ''arm''" and "\<not> startswith (platform env) ''aarch''"
  shows "full_lds_reset env [] reset_m3 silent =
           Some (if silent then [] else [Print (Starting []), Print (Finishing [])], Inr [])
       \<and> trigger_resets env [] Map.empty = ([], Inr Map.empty)
       \<and> poll_stage env [] Map.empty =
           Some (\<lparr>rounds = 1, elapsed = 0, reset_bit_map = Map.empty, poll_events = []\<rparr>,
                 Inr EarlyExit)"
proof -
  have ps: "poll_stage env [] Map.empty =
      Some (\<lparr>rounds = 1, elapsed = 0, reset_bit_map = Map.empty, poll_events = []\<rparr>,
            Inr EarlyExit)"
    by (simp add: poll_stage_def poll_loop_no_files)
  have "list_of_set env [] = []" by (simp add: list_of_set_def)
  with assms ps show ?thesis
    by (simp add: full_lds_reset_def report_and_restore_def bind_io_def)
qed

text \<open>The theorem at a concrete input.\<close>

theorem empty_batch_returns_at_once_witness:
  "full_lds_reset (fake_host ''x86_64'' steady_samples [8, 0, 0, 0, 2, 0, 0, 0, 0, 0, 0, 0, 0, 0, 0, 0])
     [] False False = Some ([Print (Starting []), Print (Finishing [])], Inr [])
   \<and> poll_stage (fake_host ''x86_64'' steady_samples [8, 0, 0, 0, 2, 0, 0, 0, 0, 0, 0, 0, 0, 0, 0, 0])
       [] Map.empty =
       Some (\<lparr>rounds = 1, elapsed = 0, reset_bit_map = Map.empty, poll_events = []\<rparr>,
             Inr EarlyExit)"
proof -
  let ?E = "fake_host ''x86_64'' steady_samples [8, 0, 0, 0, 2, 0, 0, 0, 0, 0, 0, 0, 0, 0, 0, 0]"
  have a: "\<not> startswith (platform ?E) ''arm''" and b: "\<not> startswith (platform ?E) ''aarch''"
    by (simp_all add: fake_host_def startswith_def)
  from empty_batch_returns_at_once [OF a b, of False False] show ?thesis by simp
qed

section \<open>The events of a run\<close>

lemma count_list_concat_replicate:
  "count_list (concat (replicate n xs)) e = n * count_list xs e"
  by (induction n) simp_all

lemma count_list_zero: "e \<notin> set xs \<Longrightarrow> count_list xs e = 0"
  by (induction xs) auto

lemma sleeps_of_run: "count_list (run_events env silent is m) Sleep = m"
proof -
  have a: "count_list (concat (map (\<lambda>i. GetPciBdf i # ioctl_events i flags) is)) Sleep = 0" for flags
    by (rule count_list_zero) (auto simp: ioctl_events_def)
  have b: "count_list (concat (map (\<lambda>i. ioctl_events i flags) is)) Sleep = 0" for flags
    by (rule count_list_zero) (auto simp: ioctl_events_def)
  have c: "count_list (map (\<lambda>i. OpenConfig (bdf_of env i)) is) Sleep = 0"
    by (rule count_list_zero) auto
  have d: "count_list (map (verdict env r) is) Sleep = 0" for r
    by (rule count_list_zero) (auto simp: verdict_def)
  have e: "count_list (map NewPciChip is) Sleep = 0"
    by (rule count_list_zero) auto
  have f: "count_list (map (\<lambda>i. Pread (bdf_of env i) n k) is) Sleep = 0" for n k
    by (rule count_list_zero) auto
  show ?thesis
    by (simp add: run_events_def a b c d e f count_list_concat_replicate)
qed

lemma verdicts_of_run:
  "Print (ResetCompleted i) \<in> set (run_events env silent is m)
     \<longleftrightarrow> i \<in> set is \<and> sampled_bit env (m - 1) i = 0"
  "Print (ResetNotCompleted i) \<in> set (run_events env silent is m)
     \<longleftrightarrow> i \<in> set is \<and> sampled_bit env (m - 1) i \<noteq> 0"
  by (auto simp: run_events_def ioctl_events_def verdict_def split: if_splits)

lemma restores_of_run:
  "i \<in> set is \<Longrightarrow> set (ioctl_events i 0) \<subseteq> set (run_events env silent is m)"
  by (auto simp: run_events_def)

text \<open>
  Claim C3, as the code has it. In a run that returns, with \<open>m\<close> rounds of reads (the
  number of sleeps, at least one), a device of the batch is reported completed, and not
  reported not completed, if bit 1 of its sample of the last round, \<open>m - 1\<close>, is 0; it
  is reported not completed, and not reported completed, otherwise. In particular a
  device none of whose samples had bit 0 is reported not completed. Either way the device
  gets its \<^verbatim>\<open>RESTORE_STATE\<close> command.
\<close>

theorem classified_by_last_sample:
  assumes run: "full_lds_reset env xs reset_m3 silent = Some (tr, Inr chips)"
    and dev: "i \<in> set xs"
  shows "\<exists>m > 0. count_list tr Sleep = m
      \<and> (\<exists>b. pread env (m - 1) (bdf_of env i) = Inr b
            \<and> (reset_bit_of b = 0 \<longrightarrow>
                  Print (ResetCompleted i) \<in> set tr \<and> Print (ResetNotCompleted i) \<notin> set tr)
            \<and> (reset_bit_of b \<noteq> 0 \<longrightarrow>
                  Print (ResetNotCompleted i) \<in> set tr \<and> Print (ResetCompleted i) \<notin> set tr))
      \<and> ((\<forall>r < m. \<forall>b. pread env r (bdf_of env i) = Inr b \<longrightarrow> reset_bit_of b \<noteq> 0) \<longrightarrow>
            Print (ResetNotCompleted i) \<in> set tr \<and> Print (ResetCompleted i) \<notin> set tr)
      \<and> set (ioctl_events i 0) \<subseteq> set tr"
proof -
  from dev have ne: "xs \<noteq> []" by auto
  from full_lds_reset_success [OF run] ne dev obtain m b where
    tr: "tr = run_events env silent (list_of_set env xs) m" and pos: "0 < m"
    and b: "pread env (m - 1) (bdf_of env i) = Inr b"
    by blast
  from dev have mem: "i \<in> set (list_of_set env xs)" by (simp add: list_of_set_set)
  from b have sb: "sampled_bit env (m - 1) i = reset_bit_of b" by (simp add: sampled_bit_def)
  have never: "(\<forall>r < m. \<forall>b. pread env r (bdf_of env i) = Inr b \<longrightarrow> reset_bit_of b \<noteq> 0)
      \<longrightarrow> reset_bit_of b \<noteq> 0"
    using pos b by (metis diff_less zero_less_one)
  have verdicts: "reset_bit_of b = 0 \<longrightarrow>
        Print (ResetCompleted i) \<in> set tr \<and> Print (ResetNotCompleted i) \<notin> set tr"
    "reset_bit_of b \<noteq> 0 \<longrightarrow>
        Print (ResetNotCompleted i) \<in> set tr \<and> Print (ResetCompleted i) \<notin> set tr"
    using mem sb by (simp_all add: tr verdicts_of_run)
  have restore: "set (ioctl_events i 0) \<subseteq> set tr"
    using restores_of_run [OF mem, of env silent m] by (simp add: tr)
  have sleeps: "count_list tr Sleep = m" by (simp add: tr sleeps_of_run)
  from pos sleeps b verdicts never restore show ?thesis by blast
qed

text \<open>The theorem at a concrete input.\<close>

theorem classified_by_last_sample_witness:
  "\<exists>tr. full_lds_reset
       (fake_host ''x86_64'' bouncing_samples [8, 0, 0, 0, 2, 0, 0, 0, 0, 0, 0, 0, 0, 0, 0, 0])
       [3] False True = Some (tr, Inr [3])
     \<and> count_list tr Sleep = 2
     \<and> sampled_bit
          (fake_host ''x86_64'' bouncing_samples [8, 0, 0, 0, 2, 0, 0, 0, 0, 0, 0, 0, 0, 0, 0, 0])
          0 3 = 0
     \<and> sampled_bit
          (fake_host ''x86_64'' bouncing_samples [8, 0, 0, 0, 2, 0, 0, 0, 0, 0, 0, 0, 0, 0, 0, 0])
          1 3 = 1
     \<and> Print (ResetNotCompleted 3) \<in> set tr \<and> Print (ResetCompleted 3) \<notin> set tr"
proof -
  let ?E = "fake_host ''x86_64'' bouncing_samples [8, 0, 0, 0, 2, 0, 0, 0, 0, 0, 0, 0, 0, 0, 0, 0]"
  have "\<exists>tr. full_lds_reset ?E [3] False True = Some (tr, Inr [3]) \<and> count_list tr Sleep = 2"
    by (simp add: run_simps)
  then obtain tr where run: "full_lds_reset ?E [3] False True = Some (tr, Inr [3])"
    and two: "count_list tr Sleep = 2" by blast
  have s0: "sampled_bit ?E 0 3 = 0" and s1: "sampled_bit ?E 1 3 = 1"
    by (simp_all add: sampled_bit_def bdf_of_def fake_simps)
  have dev: "(3::int) \<in> set [3]" by simp
  from classified_by_last_sample [OF run dev] two
  obtain b where b: "pread ?E (2 - 1) (bdf_of ?E 3) = Inr b"
    and v: "reset_bit_of b \<noteq> 0 \<longrightarrow>
      Print (ResetNotCompleted 3) \<in> set tr \<and> Print (ResetCompleted 3) \<notin> set tr"
    by auto
  from b have "reset_bit_of b = 1" by (auto simp: bdf_of_def fake_simps)
  with v have "Print (ResetNotCompleted 3) \<in> set tr \<and> Print (ResetCompleted 3) \<notin> set tr"
    by simp
  with run two s0 s1 show ?thesis by blast
qed

text \<open>
  Claim C3 as stated fails: a 0 that was observed is lost when a later sample is 1.
  Device 3 reads \<open>0x00\<close> (bit 0) in the first round and \<open>0x02\<close> in the second, and
  is reported not completed.
\<close>

theorem zero_then_one_counterexample:
  "reset_bit_of (bouncing_samples 0 (fake_bdf 3)) = 0
   \<and> full_lds_reset
       (fake_host ''x86_64'' bouncing_samples [8, 0, 0, 0, 2, 0, 0, 0, 0, 0, 0, 0, 0, 0, 0, 0])
       [3] False True =
     Some ([GetPciBdf 3, OsOpen 3,
            Ioctl 3 64006 [8, 0, 0, 0, 2, 0, 0, 0, 0, 0, 0, 0, 0, 0, 0, 0], OsClose 3,
            OpenConfig ''0000:03:00.0'',
            Pread ''0000:03:00.0'' 1 4, Sleep,
            Pread ''0000:03:00.0'' 1 4, Sleep,
            Print (ResetNotCompleted 3),
            OsOpen 3, Ioctl 3 64006 [8, 0, 0, 0, 0, 0, 0, 0, 0, 0, 0, 0, 0, 0, 0, 0], OsClose 3,
            NewPciChip 3],
           Inr [3])"
  by (simp add: run_simps)

text \<open>
  Claim C5, as the code has it. The events of a run that returns are, in this order:
  the start message (unless silent); for each device in turn, its BDF lookup followed at
  once by its \<^verbatim>\<open>CONFIG_WRITE\<close> command; the opening of every config file; the rounds
  of reads, each followed by a sleep; the classification messages; every
  \<^verbatim>\<open>RESTORE_STATE\<close> command; the final message (unless silent); the construction of
  every returned handle. So BDF lookup and \<^verbatim>\<open>CONFIG_WRITE\<close> alternate device by
  device within one stage, and the later stages are barriers for the whole batch.
\<close>

theorem stages_in_order:
  assumes run: "full_lds_reset env xs reset_m3 silent = Some (tr, Inr chips)"
  shows "\<exists>m. tr =
      (if silent then [] else [Print (Starting (list_of_set env xs))])
      @ concat (map (\<lambda>i. GetPciBdf i # ioctl_events i 2) (list_of_set env xs))
      @ map (\<lambda>i. OpenConfig (bdf_of env i)) (list_of_set env xs)
      @ concat (replicate m (map (\<lambda>i. Pread (bdf_of env i) 1 4) (list_of_set env xs) @ [Sleep]))
      @ map (verdict env (m - 1)) (list_of_set env xs)
      @ concat (map (\<lambda>i. ioctl_events i 0) (list_of_set env xs))
      @ (if silent then [] else [Print (Finishing (list_of_set env xs))])
      @ map NewPciChip (list_of_set env xs)"
  using full_lds_reset_success [OF run] unfolding run_events_def by blast

text \<open>The theorem at a concrete input.\<close>

theorem stages_in_order_witness:
  "\<exists>tr m. full_lds_reset
       (fake_host ''x86_64'' steady_samples [8, 0, 0, 0, 2, 0, 0, 0, 0, 0, 0, 0, 0, 0, 0, 0])
       [3, 5] False True = Some (tr, Inr [3, 5])
     \<and> tr = [GetPciBdf 3] @ ioctl_events 3 2 @ [GetPciBdf 5] @ ioctl_events 5 2
          @ [OpenConfig ''0000:03:00.0'', OpenConfig ''0000:05:00.0'']
          @ concat (replicate m
              [Pread ''0000:03:00.0'' 1 4, Pread ''0000:05:00.0'' 1 4, Sleep])
          @ [Print (ResetCompleted 3), Print (ResetNotCompleted 5)]
          @ ioctl_events 3 0 @ ioctl_events 5 0
          @ [NewPciChip 3, NewPciChip 5]"
proof -
  let ?E = "fake_host ''x86_64'' steady_samples [8, 0, 0, 0, 2, 0, 0, 0, 0, 0, 0, 0, 0, 0, 0, 0]"
  have "\<exists>tr. full_lds_reset ?E [3, 5] False True = Some (tr, Inr [3, 5])"
    by (simp add: run_simps)
  then obtain tr where run: "full_lds_reset ?E [3, 5] False True = Some (tr, Inr [3, 5])"
    by blast
  have ids: "list_of_set ?E [3, 5] = [3, 5]"
    by (simp add: list_of_set_def fake_host_def)
  have v: "verdict ?E r 3 = Print (ResetCompleted 3)"
    "verdict ?E r 5 = Print (ResetNotCompleted 5)" for r
    by (simp_all add: verdict_def sampled_bit_def bdf_of_def fake_simps)
  have b: "bdf_of ?E 3 = ''0000:03:00.0''" "bdf_of ?E 5 = ''0000:05:00.0''"
    by (simp_all add: bdf_of_def fake_simps)
  from stages_in_order [OF run] obtain m where
    "tr = concat (map (\<lambda>i. GetPciBdf i # ioctl_events i 2) [3, 5])
      @ map (\<lambda>i. OpenConfig (bdf_of ?E i)) [3, 5]
      @ concat (replicate m (map (\<lambda>i. Pread (bdf_of ?E i) 1 4) [3, 5] @ [Sleep]))
      @ map (verdict ?E (m - 1)) [3, 5]
      @ concat (map (\<lambda>i. ioctl_events i 0) [3, 5])
      @ map NewPciChip [3, 5]"
    unfolding ids by auto
  then have "tr = [GetPciBdf 3] @ ioctl_events 3 2 @ [GetPciBdf 5] @ ioctl_events 5 2
          @ [OpenConfig ''0000:03:00.0'', OpenConfig ''0000:05:00.0'']
          @ concat (replicate m
              [Pread ''0000:03:00.0'' 1 4, Pread ''0000:05:00.0'' 1 4, Sleep])
          @ [Print (ResetCompleted 3), Print (ResetNotCompleted 5)]
          @ ioctl_events 3 0 @ ioctl_events 5 0
          @ [NewPciChip 3, NewPciChip 5]"
    by (simp add: v b)
  with run show ?thesis by blast
qed

text \<open>
  Claim C5 as stated fails for the batch \<open>[3, 5]\<close>: device 3 gets its
  \<^verbatim>\<open>CONFIG_WRITE\<close> (the second to fourth event) before the BDF of device 5 is
  looked up (the fifth).
\<close>

theorem write_before_next_bdf_counterexample:
  "full_lds_reset
     (fake_host ''x86_64'' steady_samples [8, 0, 0, 0, 2, 0, 0, 0, 0, 0, 0, 0, 0, 0, 0, 0])
     [3, 5] False True =
   Some ([GetPciBdf 3, OsOpen 3,
          Ioctl 3 64006 [8, 0, 0, 0, 2, 0, 0, 0, 0, 0, 0, 0, 0, 0, 0, 0], OsClose 3,
          GetPciBdf 5, OsOpen 5,
          Ioctl 5 64006 [8, 0, 0, 0, 2, 0, 0, 0, 0, 0, 0, 0, 0, 0, 0, 0], OsClose 5,
          OpenConfig ''0000:03:00.0'', OpenConfig ''0000:05:00.0'',
          Pread ''0000:03:00.0'' 1 4, Pread ''0000:05:00.0'' 1 4, Sleep,
          Pread ''0000:03:00.0'' 1 4, Pread ''0000:05:00.0'' 1 4, Sleep,
          Print (ResetCompleted 3), Print (ResetNotCompleted 5),
          OsOpen 3, Ioctl 3 64006 [8, 0, 0, 0, 0, 0, 0, 0, 0, 0, 0, 0, 0, 0, 0, 0], OsClose 3,
          OsOpen 5, Ioctl 5 64006 [8, 0, 0, 0, 0, 0, 0, 0, 0, 0, 0, 0, 0, 0, 0, 0], OsClose 5,
          NewPciChip 3, NewPciChip 5],
         Inr [3, 5])"
  by (simp add: run_simps)






















end
